theory Spec2Isabelle
  imports Main "HOL-Library.Word" "HOL-Library.Monad_Syntax"
begin

section \<open>JSON values (rapidjson)\<close>

text \<open>
  The language server reads and writes rapidjson documents. A value is one of the JSON
  kinds; an object keeps its members as a list, in the order rapidjson stores them.
  A number is kept by its integer value.
\<close>

datatype json =
    JNull
  | JBool bool
  | JNumber int
  | JString string
  | JArray "json list"
  | JObject "(string \<times> json) list"

text \<open>Every document handed to the loop's helpers is a JSON object, given by its members.\<close>

type_synonym Document = "(string \<times> json) list"

text \<open>\<open>FindMember\<close> returns the first member of that name, \<open>AddMember\<close> appends.\<close>

definition FindMember :: "Document \<Rightarrow> string \<Rightarrow> json option" where
  "FindMember d k = map_of d k"

definition AddMember :: "string \<Rightarrow> json \<Rightarrow> Document \<Rightarrow> Document" where
  "AddMember k v d = d @ [(k, v)]"

text \<open>
  \<open>RemoveMember\<close> removes the first member of that name by moving the last member
  into its place (rapidjson does not keep the order); a missing name changes nothing.
\<close>

fun memberIndex :: "string \<Rightarrow> Document \<Rightarrow> nat option" where
  "memberIndex k [] = None"
| "memberIndex k (m # ms) =
     (if fst m = k then Some 0 else map_option Suc (memberIndex k ms))"

definition RemoveMember :: "string \<Rightarrow> Document \<Rightarrow> Document" where
  "RemoveMember k d =
     (case memberIndex k d of
        None \<Rightarrow> d
      | Some i \<Rightarrow> if Suc i = length d then butlast d else (butlast d)[i := last d])"

text \<open>\<open>GetString\<close> is defined on strings only: on any other value rapidjson's assertion fails.\<close>

fun GetString :: "json \<Rightarrow> string option" where
  "GetString (JString s) = Some s"
| "GetString _ = None"

section \<open>Locations and LSP ranges\<close>

text \<open>
  \<open>core::Loc::position\<close> yields a pair of \<open>Detail\<close> values (begin and end), each a line
  and a column, both 1-based. The fields are the repository's unsigned 32-bit \<open>u4\<close>;
  their declaration (core/Loc.h) is not among the sources.
\<close>

type_synonym u4 = "32 word"

record Detail =
  line :: u4
  column :: u4

text \<open>
  \<open>LSPLoop::loc2Range\<close>, from the pair that \<open>loc.position(*finalGs)\<close> returned:
  an object with members \<open>start\<close> and \<open>end\<close>, each an object with members \<open>line\<close>
  and \<open>character\<close>. The subtraction is the machine one, on \<open>u4\<close>.
\<close>

definition lspPosition :: "u4 \<Rightarrow> u4 \<Rightarrow> json" where
  "lspPosition l c = JObject [(''line'', JNumber (uint l)), (''character'', JNumber (uint c))]"

definition loc2Range :: "Detail \<times> Detail \<Rightarrow> json" where
  "loc2Range pair =
     JObject [(''start'', lspPosition (line (fst pair) - 1) (column (fst pair) - 1)),
              (''end'', lspPosition (line (snd pair) - 1) (column (snd pair) - 1))]"

text \<open>The 1-based internal positions, and the 0-based ranges of the protocol.\<close>

definition oneBased :: "(Detail \<times> Detail) set" where
  "oneBased = {p. 1 \<le> uint (line (fst p)) \<and> 1 \<le> uint (column (fst p)) \<and>
                  1 \<le> uint (line (snd p)) \<and> 1 \<le> uint (column (snd p))}"

definition lspRange :: "int \<Rightarrow> int \<Rightarrow> int \<Rightarrow> int \<Rightarrow> json" where
  "lspRange sl sc el ec =
     JObject [(''start'', JObject [(''line'', JNumber sl), (''character'', JNumber sc)]),
              (''end'', JObject [(''line'', JNumber el), (''character'', JNumber ec)])]"

definition zeroBased :: "json set" where
  "zeroBased = {r. \<exists>sl sc el ec. r = lspRange sl sc el ec \<and>
                  0 \<le> sl \<and> sl < 2 ^ 32 - 1 \<and> 0 \<le> sc \<and> sc < 2 ^ 32 - 1 \<and>
                  0 \<le> el \<and> el < 2 ^ 32 - 1 \<and> 0 \<le> ec \<and> ec < 2 ^ 32 - 1}"

text \<open>
  \<open>operator[]\<close> on a value: the member of an object, or the element of an array. On a
  missing member, a missing element or a value of another kind rapidjson's assertion
  fails: the result is \<open>None\<close>.
\<close>

fun member :: "json \<Rightarrow> string \<Rightarrow> json option" where
  "member (JObject ms) k = map_of ms k"
| "member _ k = None"

fun element :: "json \<Rightarrow> nat \<Rightarrow> json option" where
  "element (JArray xs) i = (if i < length xs then Some (xs ! i) else None)"
| "element _ i = None"

section \<open>The language server loop\<close>

subsection \<open>Methods and their registry\<close>

datatype Kind = ClientInitiated | ServerInitiated | Both

record LSPMethod =
  name :: string
  isNotification :: bool
  kind :: Kind
  isSupported :: bool

text \<open>
  The static table \<open>LSP::ALL\<close> and the named methods the loop compares with are
  declared outside the sources; the model takes them as a parameter. Two methods are
  the same method when their canonical names are equal.
\<close>

record Registry =
  ALL_METHODS :: "LSPMethod list"
  Initialize :: LSPMethod
  Inititalized :: LSPMethod
  Shutdown :: LSPMethod
  Exit :: LSPMethod
  DidChangeWatchedFiles :: LSPMethod
  TextDocumentDidChange :: LSPMethod
  TextDocumentDocumentSymbol :: LSPMethod
  ReadFile :: LSPMethod
  PushDiagnostics :: LSPMethod

definition sameMethod :: "LSPMethod \<Rightarrow> LSPMethod \<Rightarrow> bool" where
  "sameMethod a b = (name a = name b)"

text \<open>\<open>LSP::getMethod\<close>: the first candidate of that name, else a synthesized method.\<close>

definition getMethod :: "Registry \<Rightarrow> string \<Rightarrow> LSPMethod" where
  "getMethod reg n =
     (case find (\<lambda>candidate. name candidate = n) (ALL_METHODS reg) of
        Some candidate \<Rightarrow> candidate
      | None \<Rightarrow> \<lparr>name = n, isNotification = True, kind = ClientInitiated, isSupported = False\<rparr>)"

text \<open>Modelled from the spec: the error code of the protocol's error envelope.\<close>

definition MethodNotFound :: int where
  "MethodNotFound = - 32601"

subsection \<open>State of the loop\<close>

text \<open>
  The completion callbacks are \<open>std::function\<close> values. The program creates two
  closures, both at the one call of \<open>sendRequest\<close> in \<open>runLSP\<close>: the one that applies
  the returned file contents, and the empty one.
\<close>

datatype callback = ApplyReadFile | IgnoreError

record ResponseHandler =
  onResult :: callback
  onError :: callback

text \<open>
  The fields of \<open>LSPLoop\<close> the message loop itself works on. \<open>requestCounter\<close> is a
  C++ \<open>int\<close>. Everything the analysis owns (\<open>initialGS\<close>, \<open>finalGs\<close>, \<open>indexed\<close>,
  \<open>errorsAccumulated\<close>, \<open>updatedErrors\<close>) is the component \<open>pipeline\<close>. \<open>written\<close>
  lists the documents handed to \<open>sendRaw\<close>, oldest first. \<open>history\<close> is a history
  variable with no counterpart in the code: it records, in order, each registration of a
  handler under a key and each call of a callback taken from the entry of a key.
\<close>

datatype event = Registered string | Called string callback

record 'p LSPLoop =
  requestCounter :: "32 word"
  awaitingResponse :: "string \<rightharpoonup> ResponseHandler"
  rootUri :: string
  pipeline :: 'p
  written :: "Document list"
  history :: "event list"

text \<open>
  The collaborators of the loop, as operations on the pipeline component:
  \<open>reIndex\<close>; \<open>runSlowPath\<close> over the changed files (path and contents);
  the part of \<open>pushErrors\<close> before its \<open>sendNotification\<close> calls, which drains the
  error queue and builds one \<open>publishDiagnosticsParams\<close> per existing file of
  \<open>updatedErrors\<close> (given \<open>rootUri\<close>); the search of \<open>uri2FileRef\<close> through the
  files of \<open>finalGs\<close> for a path, which gives \<open>FileRef()\<close> when there is none; and
  the symbol walk of \<open>textDocument/documentSymbol\<close> for a file ref. Where such an
  operation fails an assertion or does not return, its result is \<open>None\<close>.
\<close>

record ('p, 'f) Collaborators =
  reIndex :: "bool \<Rightarrow> 'p \<Rightarrow> 'p option"
  slowPath :: "(string \<times> string) list \<Rightarrow> 'p \<Rightarrow> 'p option"
  diagnostics :: "string \<Rightarrow> 'p \<Rightarrow> (json list \<times> 'p) option"
  noFile :: 'f
  findFile :: "string \<Rightarrow> 'p \<Rightarrow> 'f"
  documentSymbols :: "'f \<Rightarrow> 'p \<Rightarrow> json list option"

subsection \<open>Writing messages\<close>

text \<open>Decimal rendering of an \<open>int\<close>, as \<open>fmt::format("{}", n)\<close> prints it.\<close>

definition digit :: "nat \<Rightarrow> char" where
  "digit n = ''0123456789'' ! n"

function show_nat :: "nat \<Rightarrow> string" where
  "show_nat n = (if n < 10 then [digit n] else show_nat (n div 10) @ [digit (n mod 10)])"
  by pat_completeness auto
termination
  by (relation "measure id") auto

definition show_int :: "int \<Rightarrow> string" where
  "show_int i = (if i < 0 then CHR ''-'' # show_nat (nat (- i)) else show_nat (nat i))"

definition idStr :: "32 word \<Rightarrow> string" where
  "idStr c = ''ruby-typer-req-'' @ show_int (sint c)"

definition sendRaw :: "Document \<Rightarrow> 'p LSPLoop \<Rightarrow> 'p LSPLoop" where
  "sendRaw raw s = s\<lparr>written := written s @ [raw]\<rparr>"

text \<open>
  \<open>sendNotification\<close> and \<open>sendRequest\<close>. A failed \<open>ENFORCE\<close> is the result \<open>None\<close>.
  Both increment \<open>requestCounter\<close> before formatting \<open>idStr\<close>; only \<open>sendRequest\<close>
  uses the string.
\<close>

definition sendNotification :: "LSPMethod \<Rightarrow> json \<Rightarrow> 'p LSPLoop \<Rightarrow> 'p LSPLoop option" where
  "sendNotification meth data s =
     (if \<not> isNotification meth then None
      else if \<not> (kind meth = ServerInitiated \<or> kind meth = Both) then None
      else let s1 = s\<lparr>requestCounter := requestCounter s + 1\<rparr>
           in Some (sendRaw [(''method'', JString (name meth)), (''params'', data)] s1))"

definition sendRequest ::
  "LSPMethod \<Rightarrow> json \<Rightarrow> callback \<Rightarrow> callback \<Rightarrow> 'p LSPLoop \<Rightarrow> 'p LSPLoop option" where
  "sendRequest meth data onComplete onFail s =
     (if isNotification meth then None
      else if \<not> (kind meth = ServerInitiated \<or> kind meth = Both) then None
      else let s1 = s\<lparr>requestCounter := requestCounter s + 1\<rparr>;
               key = idStr (requestCounter s1);
               request = [(''id'', JString key), (''method'', JString (name meth)), (''params'', data)];
               s2 = s1\<lparr>awaitingResponse :=
                        (awaitingResponse s1)(key \<mapsto> \<lparr>onResult = onComplete, onError = onFail\<rparr>),
                      history := history s1 @ [Registered key]\<rparr>
           in Some (sendRaw request s2))"

definition sendResult :: "Document \<Rightarrow> json \<Rightarrow> 'p LSPLoop \<Rightarrow> 'p LSPLoop" where
  "sendResult forRequest result s =
     sendRaw (RemoveMember ''params'' (RemoveMember ''method'' (AddMember ''result'' result forRequest))) s"

definition sendError :: "Document \<Rightarrow> int \<Rightarrow> string \<Rightarrow> 'p LSPLoop \<Rightarrow> 'p LSPLoop" where
  "sendError forRequest errorCode errorStr s =
     sendRaw (AddMember ''error'' (JObject [(''code'', JNumber errorCode), (''message'', JString errorStr)])
                (RemoveMember ''params'' (RemoveMember ''method'' forRequest))) s"

text \<open>\<open>pushErrors\<close>: one \<open>textDocument/publishDiagnostics\<close> notification per params object.\<close>

fun sendNotifications :: "LSPMethod \<Rightarrow> json list \<Rightarrow> 'p LSPLoop \<Rightarrow> 'p LSPLoop option" where
  "sendNotifications meth [] s = Some s"
| "sendNotifications meth (x # xs) s =
     (case sendNotification meth x s of None \<Rightarrow> None | Some s1 \<Rightarrow> sendNotifications meth xs s1)"

definition pushErrors :: "('p, 'f) Collaborators \<Rightarrow> Registry \<Rightarrow> 'p LSPLoop \<Rightarrow> 'p LSPLoop option" where
  "pushErrors env reg s =
     do {
       (params, p1) \<leftarrow> diagnostics env (rootUri s) (pipeline s);
       sendNotifications (PushDiagnostics reg) params (s\<lparr>pipeline := p1\<rparr>)
     }"

subsection \<open>File updates\<close>

definition startsWith :: "string \<Rightarrow> string \<Rightarrow> bool" where
  "startsWith str prefix = (length prefix \<le> length str \<and> take (length prefix) str = prefix)"

text \<open>
  \<open>remoteName2Local\<close>: the uri without the root and the separator after it. On a uri
  that is the root itself the length passed to the string constructor underflows; that
  case, like the failed \<open>ENFORCE\<close>, is \<open>None\<close>.
\<close>

definition remoteName2Local :: "string \<Rightarrow> string \<Rightarrow> string option" where
  "remoteName2Local root uri =
     (if \<not> startsWith uri root then None
      else if length uri \<le> length root then None
      else Some (drop (Suc (length root)) uri))"

text \<open>The loop of the \<open>readFile\<close> completion callback over the array of edits.\<close>

fun readEdits :: "string \<Rightarrow> json list \<Rightarrow> (string \<times> string) list option" where
  "readEdits root [] = Some []"
| "readEdits root (change # rest) =
     do {
       u \<leftarrow> member change ''uri'';
       uri \<leftarrow> GetString u;
       c \<leftarrow> member change ''content'';
       content \<leftarrow> GetString c;
       files \<leftarrow> readEdits root rest;
       if startsWith uri root
       then do { local \<leftarrow> remoteName2Local root uri; Some ((local, content) # files) }
       else Some files
     }"

text \<open>
  Invoking a callback. \<open>ApplyReadFile\<close> is the first lambda of \<open>runLSP\<close>
  (\<open>tryFastPath\<close>, which is \<open>runSlowPath\<close>, then \<open>pushErrors\<close>); \<open>IgnoreError\<close>
  is the second, with an empty body.
\<close>

fun invoke :: "('p, 'f) Collaborators \<Rightarrow> Registry \<Rightarrow> callback \<Rightarrow> json \<Rightarrow> 'p LSPLoop \<Rightarrow> 'p LSPLoop option" where
  "invoke env reg IgnoreError v s = Some s"
| "invoke env reg ApplyReadFile (JArray edits) s =
     do {
       files \<leftarrow> readEdits (rootUri s) edits;
       p1 \<leftarrow> slowPath env files (pipeline s);
       pushErrors env reg (s\<lparr>pipeline := p1\<rparr>)
     }"
| "invoke env reg ApplyReadFile _ s = None"

subsection \<open>Replies\<close>

text \<open>
  \<open>LSPLoop::handleReplies\<close>. The pending entry is erased before the callback runs;
  the history variable records the call.
\<close>

definition reply ::
  "('p, 'f) Collaborators \<Rightarrow> Registry \<Rightarrow> (ResponseHandler \<Rightarrow> callback) \<Rightarrow> json \<Rightarrow> Document \<Rightarrow>
   'p LSPLoop \<Rightarrow> 'p LSPLoop option" where
  "reply env reg which payload d s =
     (case FindMember d ''id'' of
        None \<Rightarrow> Some s
      | Some i \<Rightarrow>
          (case GetString i of
             None \<Rightarrow> None
           | Some key \<Rightarrow>
               (case awaitingResponse s key of
                  None \<Rightarrow> Some s
                | Some fnd \<Rightarrow>
                    let func = which fnd;
                        s1 = s\<lparr>awaitingResponse := (awaitingResponse s)(key := None)\<rparr>;
                        s2 = s1\<lparr>history := history s1 @ [Called key func]\<rparr>
                    in invoke env reg func payload s2)))"

definition handleReplies ::
  "('p, 'f) Collaborators \<Rightarrow> Registry \<Rightarrow> 'p LSPLoop \<Rightarrow> Document \<Rightarrow> (bool \<times> 'p LSPLoop) option" where
  "handleReplies env reg s d =
     (case FindMember d ''result'' of
        Some result \<Rightarrow> map_option (Pair True) (reply env reg onResult result d s)
      | None \<Rightarrow>
          (case FindMember d ''error'' of
             Some err \<Rightarrow> map_option (Pair True) (reply env reg onError err d s)
           | None \<Rightarrow> Some (False, s)))"

subsection \<open>Dispatch\<close>

datatype control = Continue | Leave

definition serverCap :: json where
  "serverCap = JObject [(''capabilities'',
     JObject [(''textDocumentSync'', JNumber 1), (''documentSymbolProvider'', JBool True)])]"

text \<open>The body of \<open>textDocument/didChange\<close>.\<close>

definition didChange :: "('p, 'f) Collaborators \<Rightarrow> Registry \<Rightarrow> Document \<Rightarrow> 'p LSPLoop \<Rightarrow> 'p LSPLoop option" where
  "didChange env reg d s =
     do {
       edits \<leftarrow> FindMember d ''params'';
       td \<leftarrow> member edits ''textDocument'';
       u \<leftarrow> member td ''uri'';
       uri \<leftarrow> GetString u;
       cc \<leftarrow> member edits ''contentChanges'';
       c0 \<leftarrow> element cc 0;
       t \<leftarrow> member c0 ''text'';
       content \<leftarrow> GetString t;
       if startsWith uri (rootUri s)
       then do {
         local \<leftarrow> remoteName2Local (rootUri s) uri;
         p1 \<leftarrow> slowPath env [(local, content)] (pipeline s);
         pushErrors env reg (s\<lparr>pipeline := p1\<rparr>)
       }
       else Some s
     }"

text \<open>The notification branch of \<open>runLSP\<close>: four tests in sequence.\<close>

definition notification ::
  "('p, 'f) Collaborators \<Rightarrow> Registry \<Rightarrow> LSPMethod \<Rightarrow> Document \<Rightarrow> 'p LSPLoop \<Rightarrow>
   (control \<times> 'p LSPLoop) option" where
  "notification env reg method d s =
     do {
       s1 \<leftarrow> (if sameMethod method (DidChangeWatchedFiles reg)
              then do {
                params \<leftarrow> FindMember d ''params'';
                sendRequest (ReadFile reg) params ApplyReadFile IgnoreError s
              }
              else Some s);
       s2 \<leftarrow> (if sameMethod method (TextDocumentDidChange reg) then didChange env reg d s1
              else Some s1);
       s3 \<leftarrow> (if sameMethod method (Inititalized reg)
              then do {
                p1 \<leftarrow> reIndex env True (pipeline s2);
                p2 \<leftarrow> slowPath env [] p1;
                pushErrors env reg (s2\<lparr>pipeline := p2\<rparr>)
              }
              else Some s2);
       Some (if sameMethod method (Exit reg) then Leave else Continue, s3)
     }"

text \<open>
  \<open>uri2FileRef\<close>: a uri outside the root has no file; otherwise the local name is
  searched for. \<open>remoteName2Local\<close> does not return for the root itself.
\<close>

definition uri2FileRef :: "('p, 'f) Collaborators \<Rightarrow> string \<Rightarrow> string \<Rightarrow> 'p \<Rightarrow> 'f option" where
  "uri2FileRef env root uri p =
     (if \<not> startsWith uri root then Some (noFile env)
      else do { needle \<leftarrow> remoteName2Local root uri; Some (findFile env needle p) })"

text \<open>The request branch of \<open>runLSP\<close>.\<close>

definition request ::
  "('p, 'f) Collaborators \<Rightarrow> Registry \<Rightarrow> LSPMethod \<Rightarrow> Document \<Rightarrow> 'p LSPLoop \<Rightarrow>
   (control \<times> 'p LSPLoop) option" where
  "request env reg method d s =
     (if sameMethod method (Initialize reg) then
        do {
          params \<leftarrow> FindMember d ''params'';
          r \<leftarrow> member params ''rootUri'';
          root \<leftarrow> GetString r;
          Some (Continue, sendResult d serverCap (s\<lparr>rootUri := root\<rparr>))
        }
      else if sameMethod method (Shutdown reg) then
        Some (Continue, sendResult d JNull s)
      else if sameMethod method (TextDocumentDocumentSymbol reg) then
        do {
          params \<leftarrow> FindMember d ''params'';
          td \<leftarrow> member params ''textDocument'';
          u \<leftarrow> member td ''uri'';
          uri \<leftarrow> GetString u;
          fref \<leftarrow> uri2FileRef env (rootUri s) uri (pipeline s);
          symbols \<leftarrow> documentSymbols env fref (pipeline s);
          Some (Continue, sendResult d (JArray symbols) s)
        }
      else if isSupported method then None
      else Some (Continue, sendError d MethodNotFound (''Unknown method: '' @ name method) s))"

text \<open>One iteration of the loop of \<open>runLSP\<close>, on a document that parsed.\<close>

definition processMessage ::
  "('p, 'f) Collaborators \<Rightarrow> Registry \<Rightarrow> 'p LSPLoop \<Rightarrow> Document \<Rightarrow> (control \<times> 'p LSPLoop) option" where
  "processMessage env reg s d =
     (case handleReplies env reg s d of
        None \<Rightarrow> None
      | Some (True, s1) \<Rightarrow> Some (Continue, s1)
      | Some (False, s1) \<Rightarrow>
          do {
            m \<leftarrow> FindMember d ''method'';
            n \<leftarrow> GetString m;
            let method = getMethod reg n;
            if \<not> (kind method = ClientInitiated \<or> kind method = Both) then None
            else if isNotification method then notification env reg method d s1
            else request env reg method d s1
          })"

text \<open>
  \<open>runLSP\<close> over the documents read from the input, in order; the input ends with
  end of file. The result is the state when the loop returns.
\<close>

fun runLSP :: "('p, 'f) Collaborators \<Rightarrow> Registry \<Rightarrow> 'p LSPLoop \<Rightarrow> Document list \<Rightarrow> 'p LSPLoop option" where
  "runLSP env reg s [] = Some s"
| "runLSP env reg s (d # ds) =
     (case processMessage env reg s d of
        None \<Rightarrow> None
      | Some (Continue, s1) \<Rightarrow> runLSP env reg s1 ds
      | Some (Leave, s1) \<Rightarrow> Some s1)"

subsection \<open>Accounting of callbacks\<close>

definition registrations :: "string \<Rightarrow> event list \<Rightarrow> nat" where
  "registrations k h = length (filter (\<lambda>e. e = Registered k) h)"

fun isCalled :: "string \<Rightarrow> event \<Rightarrow> bool" where
  "isCalled k (Called k' func) = (k' = k)"
| "isCalled k (Registered k') = False"

definition callsOf :: "string \<Rightarrow> event list \<Rightarrow> nat" where
  "callsOf k h = length (filter (isCalled k) h)"

definition pending :: "'p LSPLoop \<Rightarrow> string \<Rightarrow> nat" where
  "pending s k = (case awaitingResponse s k of None \<Rightarrow> 0 | Some fnd \<Rightarrow> 1)"

text \<open>Under every key, the calls made so far and the entry still pending are covered by registrations.\<close>

definition accounted :: "'p LSPLoop \<Rightarrow> bool" where
  "accounted s = (\<forall>k. callsOf k (history s) + pending s k \<le> registrations k (history s))"

subsection \<open>A concrete server\<close>

text \<open>
  Modelled from the spec: the method table \<open>LSP::ALL\<close> and its named entries, whose
  definitions are not among the sources, with the names and kinds of the spec's list of
  supported operations and of its inbound and outbound messages.
\<close>

definition lspMethod :: "string \<Rightarrow> bool \<Rightarrow> Kind \<Rightarrow> LSPMethod" where
  "lspMethod n notif k = \<lparr>name = n, isNotification = notif, kind = k, isSupported = True\<rparr>"

definition lspRegistry :: Registry where
  "lspRegistry =
     \<lparr>ALL_METHODS =
        [lspMethod ''initialize'' False ClientInitiated,
         lspMethod ''initialized'' True ClientInitiated,
         lspMethod ''shutdown'' False ClientInitiated,
         lspMethod ''exit'' True ClientInitiated,
         lspMethod ''workspace/didChangeWatchedFiles'' True ClientInitiated,
         lspMethod ''textDocument/didChange'' True ClientInitiated,
         lspMethod ''textDocument/documentSymbol'' False ClientInitiated,
         lspMethod ''readFile'' False ServerInitiated,
         lspMethod ''textDocument/publishDiagnostics'' True ServerInitiated],
      Initialize = lspMethod ''initialize'' False ClientInitiated,
      Inititalized = lspMethod ''initialized'' True ClientInitiated,
      Shutdown = lspMethod ''shutdown'' False ClientInitiated,
      Exit = lspMethod ''exit'' True ClientInitiated,
      DidChangeWatchedFiles = lspMethod ''workspace/didChangeWatchedFiles'' True ClientInitiated,
      TextDocumentDidChange = lspMethod ''textDocument/didChange'' True ClientInitiated,
      TextDocumentDocumentSymbol = lspMethod ''textDocument/documentSymbol'' False ClientInitiated,
      ReadFile = lspMethod ''readFile'' False ServerInitiated,
      PushDiagnostics = lspMethod ''textDocument/publishDiagnostics'' True ServerInitiated\<rparr>"

text \<open>The named entries of a registry are entries of its table.\<close>

definition namedInTable :: "Registry \<Rightarrow> bool" where
  "namedInTable reg =
     (let names = map name (ALL_METHODS reg)
      in list_all (\<lambda>m. name m \<in> set names)
           [Initialize reg, Inititalized reg, Shutdown reg, Exit reg, DidChangeWatchedFiles reg,
            TextDocumentDidChange reg, TextDocumentDocumentSymbol reg])"

text \<open>
  A pipeline without files, and one that has a diagnostic to publish for the file
  \<open>a.rb\<close> after every analysis.
\<close>

definition quiet :: "(unit, nat) Collaborators" where
  "quiet = \<lparr>reIndex = (\<lambda>initial p. Some p), slowPath = (\<lambda>files p. Some p),
            diagnostics = (\<lambda>root p. Some ([], p)),
            noFile = 0, findFile = (\<lambda>path p. 0), documentSymbols = (\<lambda>fref p. Some [])\<rparr>"

definition oneDiagnostic :: "(unit, nat) Collaborators" where
  "oneDiagnostic = \<lparr>reIndex = (\<lambda>initial p. Some p), slowPath = (\<lambda>files p. Some p),
     diagnostics = (\<lambda>root p. Some ([JObject [(''uri'', JString (root @ ''/a.rb'')), (''diagnostics'', JArray [])]], p)),
     noFile = 0, findFile = (\<lambda>path p. 0), documentSymbols = (\<lambda>fref p. Some [])\<rparr>"

text \<open>The loop before its first message, with the counter at \<open>c\<close>.\<close>

definition startAt :: "32 word \<Rightarrow> unit LSPLoop" where
  "startAt c = \<lparr>requestCounter = c, awaitingResponse = Map.empty, rootUri = ''file:///w'',
                pipeline = (), written = [], history = []\<rparr>"

text \<open>The same table with one more entry, a request method that the server does not support.\<close>

definition withHover :: Registry where
  "withHover = lspRegistry\<lparr>ALL_METHODS := ALL_METHODS lspRegistry @
     [\<lparr>name = ''textDocument/hover'', isNotification = False, kind = ClientInitiated, isSupported = False\<rparr>]\<rparr>"

text \<open>The loop with one request pending, as \<open>sendRequest\<close> leaves it from counter 0.\<close>

definition waiting :: "unit LSPLoop" where
  "waiting = (startAt 1)\<lparr>awaitingResponse :=
       [''ruby-typer-req-1'' \<mapsto> \<lparr>onResult = ApplyReadFile, onError = IgnoreError\<rparr>],
     history := [Registered ''ruby-typer-req-1'']\<rparr>"

section \<open>The syntax tree\<close>

text \<open>
  Modelled from the spec: the node classes of ast.h, which is not among the sources.
  Every node carries its location; the other fields are those that the constructor
  calls of TreeCopying.cc pass, in their order. Symbols, names, local variables, the
  values of literals and the types of casts are handles, copied by value.

  The first field of a node is its address, the identity that \<open>this == avoid\<close>
  compares. A \<open>TreeRef\<close> holds a pointer to a tree stored elsewhere. The datatype is
  parametric in the addresses of nodes and in what a \<open>TreeRef\<close> holds; the trees of
  the program are the instance \<open>Expression\<close>, where a \<open>TreeRef\<close> holds an address or
  the null pointer \<open>None\<close>. Owned child slots are never null, except the block of a
  \<open>Send\<close>. A slot of a narrower class (\<open>Reference\<close>, \<open>Block\<close>, \<open>RescueCase\<close>)
  holds a node of that class, so the \<open>cast_tree\<close> applied to its copy, a node of the
  same class, returns it unchanged.
\<close>

type_synonym addr = nat
type_synonym Loc = "nat \<times> nat \<times> nat"
type_synonym SymbolRef = nat
type_synonym NameRef = nat
type_synonym LocalVariable = nat
type_synonym TypePtr = nat
type_synonym IdentKind = nat

datatype ClassDefKind = Module | Class

datatype ('a, 'r) Expr =
    ClassDef (addr: 'a) (loc: Loc) SymbolRef "('a, 'r) Expr" "('a, 'r) Expr list"
      "('a, 'r) Expr list" ClassDefKind
  | MethodDef (addr: 'a) (loc: Loc) SymbolRef NameRef "('a, 'r) Expr list" "('a, 'r) Expr" bool
  | ConstDef (addr: 'a) (loc: Loc) SymbolRef "('a, 'r) Expr"
  | If_tree (addr: 'a) (loc: Loc) "('a, 'r) Expr" "('a, 'r) Expr" "('a, 'r) Expr"
  | While (addr: 'a) (loc: Loc) "('a, 'r) Expr" "('a, 'r) Expr"
  | Break (addr: 'a) (loc: Loc) "('a, 'r) Expr"
  | Retry (addr: 'a) (loc: Loc)
  | Next (addr: 'a) (loc: Loc) "('a, 'r) Expr"
  | Return (addr: 'a) (loc: Loc) "('a, 'r) Expr"
  | Yield (addr: 'a) (loc: Loc) "('a, 'r) Expr"
  | RescueCase (addr: 'a) (loc: Loc) "('a, 'r) Expr list" "('a, 'r) Expr" "('a, 'r) Expr"
  | Rescue (addr: 'a) (loc: Loc) "('a, 'r) Expr" "('a, 'r) Expr list" "('a, 'r) Expr" "('a, 'r) Expr"
  | Ident (addr: 'a) (loc: Loc) SymbolRef
  | Local (addr: 'a) (loc: Loc) LocalVariable
  | UnresolvedIdent (addr: 'a) (loc: Loc) IdentKind NameRef
  | RestArg (addr: 'a) (loc: Loc) "('a, 'r) Expr"
  | KeywordArg (addr: 'a) (loc: Loc) "('a, 'r) Expr"
  | OptionalArg (addr: 'a) (loc: Loc) "('a, 'r) Expr" "('a, 'r) Expr"
  | BlockArg (addr: 'a) (loc: Loc) "('a, 'r) Expr"
  | ShadowArg (addr: 'a) (loc: Loc) "('a, 'r) Expr"
  | Assign (addr: 'a) (loc: Loc) "('a, 'r) Expr" "('a, 'r) Expr"
  | Send (addr: 'a) (loc: Loc) "('a, 'r) Expr" NameRef "('a, 'r) Expr list" "('a, 'r) Expr option"
  | Cast (addr: 'a) (loc: Loc) TypePtr "('a, 'r) Expr" NameRef
  | Hash (addr: 'a) (loc: Loc) "('a, 'r) Expr list" "('a, 'r) Expr list"
  | Array (addr: 'a) (loc: Loc) "('a, 'r) Expr list"
  | Literal_tree (addr: 'a) (loc: Loc) TypePtr
  | ConstantLit (addr: 'a) (loc: Loc) "('a, 'r) Expr" NameRef
  | ArraySplat (addr: 'a) (loc: Loc) "('a, 'r) Expr"
  | HashSplat (addr: 'a) (loc: Loc) "('a, 'r) Expr"
  | ZSuperArgs (addr: 'a) (loc: Loc)
  | Self (addr: 'a) (loc: Loc) SymbolRef
  | Block (addr: 'a) (loc: Loc) "('a, 'r) Expr list" "('a, 'r) Expr" SymbolRef
  | InsSeq (addr: 'a) (loc: Loc) "('a, 'r) Expr list" "('a, 'r) Expr"
  | EmptyTree (addr: 'a) (loc: Loc)
  | TreeRef (addr: 'a) (loc: Loc) 'r

type_synonym Expression = "(addr, addr option) Expr"

text \<open>The store: the tree that each non-null pointer of a \<open>TreeRef\<close> designates.\<close>

type_synonym store = "addr \<Rightarrow> Expression"

text \<open>The children a node owns, in the order of its fields.\<close>

fun owned :: "('a, 'r) Expr \<Rightarrow> ('a, 'r) Expr list" where
  "owned (ClassDef a l symbol nm ancestors rhs k) = nm # ancestors @ rhs"
| "owned (MethodDef a l symbol nm args rhs isSelf) = args @ [rhs]"
| "owned (ConstDef a l symbol rhs) = [rhs]"
| "owned (If_tree a l cond thenp elsep) = [cond, thenp, elsep]"
| "owned (While a l cond body) = [cond, body]"
| "owned (Break a l expr) = [expr]"
| "owned (Retry a l) = []"
| "owned (Next a l expr) = [expr]"
| "owned (Return a l expr) = [expr]"
| "owned (Yield a l expr) = [expr]"
| "owned (RescueCase a l exceptions var body) = exceptions @ [var, body]"
| "owned (Rescue a l body rescueCases else' ensure) = body # rescueCases @ [else', ensure]"
| "owned (Ident a l symbol) = []"
| "owned (Local a l localVariable) = []"
| "owned (UnresolvedIdent a l k nm) = []"
| "owned (RestArg a l expr) = [expr]"
| "owned (KeywordArg a l expr) = [expr]"
| "owned (OptionalArg a l expr default') = [expr, default']"
| "owned (BlockArg a l expr) = [expr]"
| "owned (ShadowArg a l expr) = [expr]"
| "owned (Assign a l lhs rhs) = [lhs, rhs]"
| "owned (Send a l recv fn args block) = recv # args @ (case block of None \<Rightarrow> [] | Some b \<Rightarrow> [b])"
| "owned (Cast a l ty arg cast) = [arg]"
| "owned (Hash a l keys values) = keys @ values"
| "owned (Array a l elems) = elems"
| "owned (Literal_tree a l v) = []"
| "owned (ConstantLit a l scope cnst) = [scope]"
| "owned (ArraySplat a l arg) = [arg]"
| "owned (HashSplat a l arg) = [arg]"
| "owned (ZSuperArgs a l) = []"
| "owned (Self a l claz) = []"
| "owned (Block a l args body symbol) = args @ [body]"
| "owned (InsSeq a l stats expr) = stats @ [expr]"
| "owned (EmptyTree a l) = []"
| "owned (TreeRef a l tree) = []"

section \<open>Deep copy\<close>

text \<open>
  A copy either runs out of fuel (\<open>None\<close>: the recursion of the code does not come
  back within that depth), throws \<open>DeepCopyError\<close>, or returns its value and the
  allocator. The allocator is the next free address: \<open>make_unique\<close> places the new
  node there.
\<close>

datatype error = DeepCopyError

type_synonym 'a copying = "nat \<Rightarrow> (error + 'a \<times> nat) option"

definition ret :: "'a \<Rightarrow> 'a copying" where
  "ret x s = Some (Inr (x, s))"

definition throw :: "error \<Rightarrow> 'a copying" where
  "throw e s = Some (Inl e)"

definition bindC :: "'a copying \<Rightarrow> ('a \<Rightarrow> 'b copying) \<Rightarrow> 'b copying" where
  "bindC m f s =
     (case m s of
        None \<Rightarrow> None
      | Some (Inl e) \<Rightarrow> Some (Inl e)
      | Some (Inr (x, s1)) \<Rightarrow> f x s1)"

definition make_unique :: "(addr \<Rightarrow> Expression) \<Rightarrow> Expression copying" where
  "make_unique mk s = Some (Inr (mk s, Suc s))"

text \<open>
  The arguments of one call. C++ leaves the order of their evaluation to the compiler;
  it is a parameter of the model: from the first to the last, or from the last to the
  first as the g++ build does it.
\<close>

datatype order = LeftToRight | RightToLeft

definition arguments :: "order \<Rightarrow> 'a copying \<Rightarrow> 'b copying \<Rightarrow> ('a \<times> 'b) copying" where
  "arguments ord m1 m2 =
     (case ord of
        LeftToRight \<Rightarrow> bindC m1 (\<lambda>x. bindC m2 (\<lambda>y. ret (x, y)))
      | RightToLeft \<Rightarrow> bindC m2 (\<lambda>y. bindC m1 (\<lambda>x. ret (x, y))))"

text \<open>\<open>deepCopyVec\<close>, given the copy of one member: a loop, from the first member on.\<close>

fun deepCopyVec :: "(Expression \<Rightarrow> Expression copying) \<Rightarrow> Expression list \<Rightarrow> Expression list copying" where
  "deepCopyVec cp [] = ret []"
| "deepCopyVec cp (memb # origin) =
     bindC (cp memb) (\<lambda>c. bindC (deepCopyVec cp origin) (\<lambda>cs. ret (c # cs)))"

text \<open>The block of a \<open>Send\<close>: null stays null.\<close>

fun deepCopyBlock :: "(Expression \<Rightarrow> Expression copying) \<Rightarrow> Expression option \<Rightarrow> Expression option copying" where
  "deepCopyBlock cp None = ret None"
| "deepCopyBlock cp (Some block) = bindC (cp block) (\<lambda>b. ret (Some b))"

text \<open>
  \<open>_deepCopy(avoid, root)\<close> of every node class, with the order of evaluation and
  the fuel as first arguments.
  Each class starts with the same test, \<open>!root && this == avoid\<close>, written once here;
  every recursive call passes \<open>root = false\<close>. The copies of the children are the
  arguments of the call of \<open>make_unique\<close>, which allocates after them.
\<close>

primrec deepCopy' :: "order \<Rightarrow> nat \<Rightarrow> store \<Rightarrow> addr \<Rightarrow> bool \<Rightarrow> Expression \<Rightarrow> Expression copying" where
  "deepCopy' ord 0 h avoid root e = (\<lambda>s. None)"
| "deepCopy' ord (Suc n) h avoid root e =
     (if \<not> root \<and> addr e = avoid then throw DeepCopyError
      else
       (case e of
          ClassDef a l symbol nm ancestors rhs k \<Rightarrow>
            bindC (arguments ord (deepCopy' ord n h avoid False nm)
                     (arguments ord (deepCopyVec (deepCopy' ord n h avoid False) ancestors)
                       (deepCopyVec (deepCopy' ord n h avoid False) rhs)))
              (\<lambda>(nm', ancestors', rhs'). make_unique (\<lambda>a'. ClassDef a' l symbol nm' ancestors' rhs' k))
        | MethodDef a l symbol nm args rhs isSelf \<Rightarrow>
            bindC (arguments ord (deepCopyVec (deepCopy' ord n h avoid False) args)
                     (deepCopy' ord n h avoid False rhs))
              (\<lambda>(args', rhs'). make_unique (\<lambda>a'. MethodDef a' l symbol nm args' rhs' isSelf))
        | ConstDef a l symbol rhs \<Rightarrow>
            bindC (deepCopy' ord n h avoid False rhs) (\<lambda>rhs'.
            make_unique (\<lambda>a'. ConstDef a' l symbol rhs'))
        | If_tree a l cond thenp elsep \<Rightarrow>
            bindC (arguments ord (deepCopy' ord n h avoid False cond)
                     (arguments ord (deepCopy' ord n h avoid False thenp)
                       (deepCopy' ord n h avoid False elsep)))
              (\<lambda>(cond', thenp', elsep'). make_unique (\<lambda>a'. If_tree a' l cond' thenp' elsep'))
        | While a l cond body \<Rightarrow>
            bindC (arguments ord (deepCopy' ord n h avoid False cond)
                     (deepCopy' ord n h avoid False body))
              (\<lambda>(cond', body'). make_unique (\<lambda>a'. While a' l cond' body'))
        | Break a l expr \<Rightarrow>
            bindC (deepCopy' ord n h avoid False expr) (\<lambda>expr'.
            make_unique (\<lambda>a'. Break a' l expr'))
        | Retry a l \<Rightarrow>
            make_unique (\<lambda>a'. Retry a' l)
        | Next a l expr \<Rightarrow>
            bindC (deepCopy' ord n h avoid False expr) (\<lambda>expr'.
            make_unique (\<lambda>a'. Next a' l expr'))
        | Return a l expr \<Rightarrow>
            bindC (deepCopy' ord n h avoid False expr) (\<lambda>expr'.
            make_unique (\<lambda>a'. Return a' l expr'))
        | Yield a l expr \<Rightarrow>
            bindC (deepCopy' ord n h avoid False expr) (\<lambda>expr'.
            make_unique (\<lambda>a'. Yield a' l expr'))
        | RescueCase a l exceptions var body \<Rightarrow>
            bindC (arguments ord (deepCopyVec (deepCopy' ord n h avoid False) exceptions)
                     (arguments ord (deepCopy' ord n h avoid False var)
                       (deepCopy' ord n h avoid False body)))
              (\<lambda>(exceptions', var', body'). make_unique (\<lambda>a'. RescueCase a' l exceptions' var' body'))
        | Rescue a l body rescueCases else' ensure \<Rightarrow>
            bindC (arguments ord (deepCopy' ord n h avoid False body)
                     (arguments ord (deepCopyVec (deepCopy' ord n h avoid False) rescueCases)
                       (arguments ord (deepCopy' ord n h avoid False else')
                         (deepCopy' ord n h avoid False ensure))))
              (\<lambda>(body', rescueCases', else'', ensure'). make_unique (\<lambda>a'. Rescue a' l body' rescueCases' else'' ensure'))
        | Ident a l symbol \<Rightarrow>
            make_unique (\<lambda>a'. Ident a' l symbol)
        | Local a l localVariable \<Rightarrow>
            make_unique (\<lambda>a'. Local a' l localVariable)
        | UnresolvedIdent a l k nm \<Rightarrow>
            make_unique (\<lambda>a'. UnresolvedIdent a' l k nm)
        | RestArg a l expr \<Rightarrow>
            bindC (deepCopy' ord n h avoid False expr) (\<lambda>expr'.
            make_unique (\<lambda>a'. RestArg a' l expr'))
        | KeywordArg a l expr \<Rightarrow>
            bindC (deepCopy' ord n h avoid False expr) (\<lambda>expr'.
            make_unique (\<lambda>a'. KeywordArg a' l expr'))
        | OptionalArg a l expr default' \<Rightarrow>
            bindC (arguments ord (deepCopy' ord n h avoid False expr)
                     (deepCopy' ord n h avoid False default'))
              (\<lambda>(expr', default''). make_unique (\<lambda>a'. OptionalArg a' l expr' default''))
        | BlockArg a l expr \<Rightarrow>
            bindC (deepCopy' ord n h avoid False expr) (\<lambda>expr'.
            make_unique (\<lambda>a'. BlockArg a' l expr'))
        | ShadowArg a l expr \<Rightarrow>
            bindC (deepCopy' ord n h avoid False expr) (\<lambda>expr'.
            make_unique (\<lambda>a'. ShadowArg a' l expr'))
        | Assign a l lhs rhs \<Rightarrow>
            bindC (arguments ord (deepCopy' ord n h avoid False lhs)
                     (deepCopy' ord n h avoid False rhs))
              (\<lambda>(lhs', rhs'). make_unique (\<lambda>a'. Assign a' l lhs' rhs'))
        | Send a l recv fn args block \<Rightarrow>
            bindC (arguments ord (deepCopy' ord n h avoid False recv)
                     (arguments ord (deepCopyVec (deepCopy' ord n h avoid False) args)
                       (deepCopyBlock (deepCopy' ord n h avoid False) block)))
              (\<lambda>(recv', args', block'). make_unique (\<lambda>a'. Send a' l recv' fn args' block'))
        | Cast a l ty arg cast \<Rightarrow>
            bindC (deepCopy' ord n h avoid False arg) (\<lambda>arg'.
            make_unique (\<lambda>a'. Cast a' l ty arg' cast))
        | Hash a l keys values \<Rightarrow>
            bindC (arguments ord (deepCopyVec (deepCopy' ord n h avoid False) keys)
                     (deepCopyVec (deepCopy' ord n h avoid False) values))
              (\<lambda>(keys', values'). make_unique (\<lambda>a'. Hash a' l keys' values'))
        | Array a l elems \<Rightarrow>
            bindC (deepCopyVec (deepCopy' ord n h avoid False) elems) (\<lambda>elems'.
            make_unique (\<lambda>a'. Array a' l elems'))
        | Literal_tree a l v \<Rightarrow>
            make_unique (\<lambda>a'. Literal_tree a' l v)
        | ConstantLit a l scope cnst \<Rightarrow>
            bindC (deepCopy' ord n h avoid False scope) (\<lambda>scope'.
            make_unique (\<lambda>a'. ConstantLit a' l scope' cnst))
        | ArraySplat a l arg \<Rightarrow>
            bindC (deepCopy' ord n h avoid False arg) (\<lambda>arg'.
            make_unique (\<lambda>a'. ArraySplat a' l arg'))
        | HashSplat a l arg \<Rightarrow>
            bindC (deepCopy' ord n h avoid False arg) (\<lambda>arg'.
            make_unique (\<lambda>a'. HashSplat a' l arg'))
        | ZSuperArgs a l \<Rightarrow>
            make_unique (\<lambda>a'. ZSuperArgs a' l)
        | Self a l claz \<Rightarrow>
            make_unique (\<lambda>a'. Self a' l claz)
        | Block a l args body symbol \<Rightarrow>
            bindC (arguments ord (deepCopyVec (deepCopy' ord n h avoid False) args)
                     (deepCopy' ord n h avoid False body))
              (\<lambda>(args', body'). make_unique (\<lambda>a'. Block a' l args' body' symbol))
        | InsSeq a l stats expr \<Rightarrow>
            bindC (arguments ord (deepCopyVec (deepCopy' ord n h avoid False) stats)
                     (deepCopy' ord n h avoid False expr))
              (\<lambda>(stats', expr'). make_unique (\<lambda>a'. InsSeq a' l stats' expr'))
        | EmptyTree a l \<Rightarrow>
            make_unique (\<lambda>a'. EmptyTree a' l)
        | TreeRef a l tree \<Rightarrow>
            if tree = Some avoid then throw DeepCopyError
            else (case tree of
                    None \<Rightarrow> throw DeepCopyError
                  | Some t \<Rightarrow> deepCopy' ord n h avoid False (h t))))"

text \<open>
  \<open>Expression::deepCopy\<close>: the node is its own avoid pointer and the root of the
  traversal. A \<open>DeepCopyError\<close> is caught and the null pointer returned; the nodes
  built so far are released with it, so the allocator is as before the call.
\<close>

definition deepCopy :: "order \<Rightarrow> nat \<Rightarrow> store \<Rightarrow> Expression \<Rightarrow> nat \<Rightarrow> (Expression option \<times> nat) option" where
  "deepCopy ord n h e s =
     (case deepCopy' ord n h (addr e) True e s of
        None \<Rightarrow> None
      | Some (Inl DeepCopyError) \<Rightarrow> Some (None, s)
      | Some (Inr (res, s1)) \<Rightarrow> Some (Some res, s1))"

text \<open>
  A throw site is reachable from a node: the node is entered other than as the root and
  is the avoid node itself; or it is a \<open>TreeRef\<close> whose pointer is null or is the
  avoid pointer; or a throw site is reachable from the target of a \<open>TreeRef\<close> or
  from an owned child, both entered with \<open>root = false\<close>.
\<close>

inductive fails :: "store \<Rightarrow> addr \<Rightarrow> bool \<Rightarrow> Expression \<Rightarrow> bool" for h :: store and avoid :: addr where
  reenter: "\<not> root \<Longrightarrow> addr e = avoid \<Longrightarrow> fails h avoid root e"
| null: "fails h avoid root (TreeRef a l None)"
| target: "fails h avoid root (TreeRef a l (Some avoid))"
| follow: "fails h avoid False (h t) \<Longrightarrow> fails h avoid root (TreeRef a l (Some t))"
| child: "x \<in> set (owned e) \<Longrightarrow> fails h avoid False x \<Longrightarrow> fails h avoid root e"

text \<open>
  Structural equality of two trees: the same classes in the same places, with equal
  fields throughout, whatever the addresses of the nodes.
\<close>

definition same :: "Expression \<Rightarrow> Expression \<Rightarrow> bool" where
  "same t c = rel_Expr (\<lambda>a b. True) (=) t c"

text \<open>The addresses of the nodes of a tree, and whether it has a \<open>TreeRef\<close> node.\<close>

definition nodes :: "Expression \<Rightarrow> addr set" where
  "nodes t = set1_Expr t"

definition hasTreeRef :: "Expression \<Rightarrow> bool" where
  "hasTreeRef t = (set2_Expr t \<noteq> {})"

text \<open>
  The traversal from a node is finite: it stops at a throw site, or the node is a
  \<open>TreeRef\<close> and the traversal from its target is finite, or the node is of another
  class and the traversal from each of its owned children is finite. A chain of
  \<open>TreeRef\<close> targets that never reaches the avoid pointer, a null pointer or a tree
  without \<open>TreeRef\<close> is what this excludes.
\<close>

fun isTreeRef :: "Expression \<Rightarrow> bool" where
  "isTreeRef (TreeRef a l tree) = True"
| "isTreeRef e = False"

inductive finiteTraversal :: "store \<Rightarrow> addr \<Rightarrow> bool \<Rightarrow> Expression \<Rightarrow> bool" for h :: store and avoid :: addr where
  stops: "\<not> root \<Longrightarrow> addr e = avoid \<Longrightarrow> finiteTraversal h avoid root e"
| null: "finiteTraversal h avoid root (TreeRef a l None)"
| target: "finiteTraversal h avoid root (TreeRef a l (Some avoid))"
| follow: "finiteTraversal h avoid False (h t) \<Longrightarrow> finiteTraversal h avoid root (TreeRef a l (Some t))"
| node: "\<not> isTreeRef e \<Longrightarrow> (\<forall>x \<in> set (owned e). finiteTraversal h avoid False x) \<Longrightarrow>
         finiteTraversal h avoid root e"

text \<open>
  The expansion of a tree, to a depth: every \<open>TreeRef\<close> with a non-null pointer is
  replaced by the expansion of its target. \<open>mapOwned\<close> applies a function to the
  owned children of a node and keeps everything else.
\<close>

fun pointer :: "Expression \<Rightarrow> addr option" where
  "pointer (TreeRef a l tree) = tree"
| "pointer e = None"

fun mapOwned :: "(Expression \<Rightarrow> Expression) \<Rightarrow> Expression \<Rightarrow> Expression" where
  "mapOwned f (ClassDef a l symbol nm ancestors rhs k) = ClassDef a l symbol (f nm) (map f ancestors) (map f rhs) k"
| "mapOwned f (MethodDef a l symbol nm args rhs isSelf) = MethodDef a l symbol nm (map f args) (f rhs) isSelf"
| "mapOwned f (ConstDef a l symbol rhs) = ConstDef a l symbol (f rhs)"
| "mapOwned f (If_tree a l cond thenp elsep) = If_tree a l (f cond) (f thenp) (f elsep)"
| "mapOwned f (While a l cond body) = While a l (f cond) (f body)"
| "mapOwned f (Break a l expr) = Break a l (f expr)"
| "mapOwned f (Retry a l) = Retry a l"
| "mapOwned f (Next a l expr) = Next a l (f expr)"
| "mapOwned f (Return a l expr) = Return a l (f expr)"
| "mapOwned f (Yield a l expr) = Yield a l (f expr)"
| "mapOwned f (RescueCase a l exceptions var body) = RescueCase a l (map f exceptions) (f var) (f body)"
| "mapOwned f (Rescue a l body rescueCases else' ensure) = Rescue a l (f body) (map f rescueCases) (f else') (f ensure)"
| "mapOwned f (Ident a l symbol) = Ident a l symbol"
| "mapOwned f (Local a l localVariable) = Local a l localVariable"
| "mapOwned f (UnresolvedIdent a l k nm) = UnresolvedIdent a l k nm"
| "mapOwned f (RestArg a l expr) = RestArg a l (f expr)"
| "mapOwned f (KeywordArg a l expr) = KeywordArg a l (f expr)"
| "mapOwned f (OptionalArg a l expr default') = OptionalArg a l (f expr) (f default')"
| "mapOwned f (BlockArg a l expr) = BlockArg a l (f expr)"
| "mapOwned f (ShadowArg a l expr) = ShadowArg a l (f expr)"
| "mapOwned f (Assign a l lhs rhs) = Assign a l (f lhs) (f rhs)"
| "mapOwned f (Send a l recv fn args block) = Send a l (f recv) fn (map f args) (map_option f block)"
| "mapOwned f (Cast a l ty arg cast) = Cast a l ty (f arg) cast"
| "mapOwned f (Hash a l keys values) = Hash a l (map f keys) (map f values)"
| "mapOwned f (Array a l elems) = Array a l (map f elems)"
| "mapOwned f (Literal_tree a l v) = Literal_tree a l v"
| "mapOwned f (ConstantLit a l scope cnst) = ConstantLit a l (f scope) cnst"
| "mapOwned f (ArraySplat a l arg) = ArraySplat a l (f arg)"
| "mapOwned f (HashSplat a l arg) = HashSplat a l (f arg)"
| "mapOwned f (ZSuperArgs a l) = ZSuperArgs a l"
| "mapOwned f (Self a l claz) = Self a l claz"
| "mapOwned f (Block a l args body symbol) = Block a l (map f args) (f body) symbol"
| "mapOwned f (InsSeq a l stats expr) = InsSeq a l (map f stats) (f expr)"
| "mapOwned f (EmptyTree a l) = EmptyTree a l"
| "mapOwned f (TreeRef a l tree) = TreeRef a l tree"

primrec expand :: "nat \<Rightarrow> store \<Rightarrow> Expression \<Rightarrow> Expression" where
  "expand 0 h e = e"
| "expand (Suc n) h e =
     (case pointer e of
        Some t \<Rightarrow> expand n h (h t)
      | None \<Rightarrow> mapOwned (expand n h) e)"

text \<open>A self-pointing \<open>TreeRef\<close> at address 2, and the store where every pointer leads to it.\<close>

definition selfRef :: Expression where
  "selfRef = TreeRef 2 (0, 0, 0) (Some 2)"

definition loopStore :: store where
  "loopStore = (\<lambda>a. selfRef)"

section \<open>The Command rewriter\<close>

text \<open>
  What \<open>patchDSL\<close> takes from its context, all declared outside the sources: the
  names that \<open>enterNameConstant(Names::Command())\<close> and
  \<open>enterNameConstant(Names::Opus())\<close> return, the name \<open>Names::call()\<close>, the
  symbol \<open>Symbols::root()\<close>; and of the helpers of \<open>ast::MK\<close>, the tree that
  \<open>MK::Untyped(loc)\<close> builds (with the allocator) and the symbol that \<open>MK::Method\<close>
  gives the method it builds.
\<close>

record Context =
  Command_cnst :: NameRef
  Opus_cnst :: NameRef
  call_name :: NameRef
  root_symbol :: SymbolRef
  MK_Untyped :: "Loc \<Rightarrow> nat \<Rightarrow> Expression \<times> nat"
  MK_Method_symbol :: SymbolRef

text \<open>\<open>isCommand\<close>. The parameter is a \<open>ClassDef\<close>.\<close>

fun isRootScope :: "Context \<Rightarrow> Expression \<Rightarrow> bool" where
  "isRootScope ctx (EmptyTree a l) = True"
| "isRootScope ctx (Ident a l symbol) = (symbol = root_symbol ctx)"
| "isRootScope ctx _ = False"

fun isOpus :: "Context \<Rightarrow> Expression \<Rightarrow> bool" where
  "isOpus ctx (ConstantLit a l scope cnst) =
     (if cnst \<noteq> Opus_cnst ctx then False else isRootScope ctx scope)"
| "isOpus ctx _ = False"

fun isOpusCommand :: "Context \<Rightarrow> Expression \<Rightarrow> bool" where
  "isOpusCommand ctx (ConstantLit a l scope cnst) =
     (if cnst \<noteq> Command_cnst ctx then False else isOpus ctx scope)"
| "isOpusCommand ctx _ = False"

fun isCommand :: "Context \<Rightarrow> Expression \<Rightarrow> bool" where
  "isCommand ctx (ClassDef a l symbol nm ancestors rhs k) =
     (if k \<noteq> Class \<or> ancestors = [] then False else isOpusCommand ctx (hd ancestors))"
| "isCommand ctx _ = False"

text \<open>
  The scan of the class body: the index of the first \<open>MethodDef\<close> named \<open>call\<close>.
  When there is none the code leaves \<open>i\<close> at 0 and \<open>call\<close> unset, and its test
  \<open>call == nullptr || i == 0\<close> returns for \<open>i == 0\<close>.
\<close>

fun isMethodNamed :: "NameRef \<Rightarrow> Expression \<Rightarrow> bool" where
  "isMethodNamed c (MethodDef a l symbol nm args rhs isSelf) = (nm = c)"
| "isMethodNamed c _ = False"

fun findCall :: "NameRef \<Rightarrow> Expression list \<Rightarrow> nat option" where
  "findCall c [] = None"
| "findCall c (stat # rest) =
     (if isMethodNamed c stat then Some 0 else map_option Suc (findCall c rest))"

text \<open>The heuristic for a signature: a \<open>Send\<close> whose receiver is a \<open>Send\<close>.\<close>

fun isSend :: "Expression \<Rightarrow> bool" where
  "isSend (Send a l recv fn args block) = True"
| "isSend _ = False"

fun looksLikeSig :: "Expression \<Rightarrow> bool" where
  "looksLikeSig (Send a l recv fn args block) = isSend recv"
| "looksLikeSig _ = False"

text \<open>The loop \<open>newArgs.emplace_back(arg->deepCopy())\<close>: a failed copy is a null entry.\<close>

fun copyArgs :: "order \<Rightarrow> nat \<Rightarrow> store \<Rightarrow> Expression list \<Rightarrow> nat \<Rightarrow> (Expression option list \<times> nat) option" where
  "copyArgs ord n h [] s = Some ([], s)"
| "copyArgs ord n h (arg # args) s =
     do {
       (c, s1) \<leftarrow> deepCopy ord n h arg s;
       (cs, s2) \<leftarrow> copyArgs ord n h args s1;
       Some (c # cs, s2)
     }"

text \<open>
  The rest of \<open>patchDSL\<close>, once \<open>call\<close> at index \<open>i\<close> and the signature before it
  are found: the new arguments, the self-targeted method, the copy of the signature, and
  the two insertions after \<open>call\<close>. The code stores what \<open>deepCopy\<close> returned without
  a test. A class body with a null statement or a method with a null argument is not
  a tree of the data model: that outcome is the value \<open>NullStored\<close>.
\<close>

datatype patch_error = NullStored

fun insertSelfCall ::
  "order \<Rightarrow> nat \<Rightarrow> store \<Rightarrow> Context \<Rightarrow> Expression list \<Rightarrow> nat \<Rightarrow> Expression \<Rightarrow> nat \<Rightarrow>
   (patch_error + Expression list \<times> nat) option" where
  "insertSelfCall ord n h ctx rhs i (MethodDef ca cl csymbol cname cargs cbody cself) s =
     do {
       (newArgs, s1) \<leftarrow> copyArgs ord n h cargs s;
       let (body, s2) = MK_Untyped ctx cl s1;
       (sigCopy, s3) \<leftarrow> deepCopy ord n h (rhs ! (i - 1)) (Suc s2);
       (case (those newArgs, sigCopy) of
          (Some args', Some sig') \<Rightarrow>
            Some (Inr (take (Suc i) rhs
                       @ [sig', MethodDef s2 cl (MK_Method_symbol ctx) cname args' body True]
                       @ drop (Suc i) rhs, s3))
        | _ \<Rightarrow> Some (Inl NullStored))
     }"
| "insertSelfCall ord n h ctx rhs i call s = Some (Inr (rhs, s))"

text \<open>
  \<open>Command::patchDSL\<close>. The class is changed in place: the result is the node at
  the same address with its new body. \<open>None\<close>: a \<open>deepCopy\<close> did not return.
\<close>

fun patchDSL ::
  "order \<Rightarrow> nat \<Rightarrow> store \<Rightarrow> Context \<Rightarrow> Expression \<Rightarrow> nat \<Rightarrow> (patch_error + Expression \<times> nat) option" where
  "patchDSL ord n h ctx (ClassDef a l symbol nm ancestors rhs k) s =
     (if \<not> isCommand ctx (ClassDef a l symbol nm ancestors rhs k)
      then Some (Inr (ClassDef a l symbol nm ancestors rhs k, s))
      else
       (case findCall (call_name ctx) rhs of
          None \<Rightarrow> Some (Inr (ClassDef a l symbol nm ancestors rhs k, s))
        | Some i \<Rightarrow>
            if i = 0 then Some (Inr (ClassDef a l symbol nm ancestors rhs k, s))
            else if \<not> looksLikeSig (rhs ! (i - 1))
            then Some (Inr (ClassDef a l symbol nm ancestors rhs k, s))
            else
             (case insertSelfCall ord n h ctx rhs i (rhs ! i) s of
                None \<Rightarrow> None
              | Some (Inl e) \<Rightarrow> Some (Inl e)
              | Some (Inr (rhs', s')) \<Rightarrow> Some (Inr (ClassDef a l symbol nm ancestors rhs' k, s')))))"
| "patchDSL ord n h ctx klass s = Some (Inr (klass, s))"

fun statements :: "Expression \<Rightarrow> Expression list" where
  "statements (ClassDef a l symbol nm ancestors rhs k) = rhs"
| "statements e = []"

text \<open>
  A context, and the class of the spec's scenario:
  \<open>class Foo < Opus::Command; sig {...}; def call(x); end; end\<close>, with the
  signature at address 10, \<open>call\<close> at address 20 and the class at address 1.
\<close>

definition aContext :: Context where
  "aContext = \<lparr>Command_cnst = 1, Opus_cnst = 2, call_name = 3, root_symbol = 0,
     MK_Untyped = (\<lambda>l s. (Send (Suc s) l (Ident s l 7) 8 [] None, Suc (Suc s))),
     MK_Method_symbol = 9\<rparr>"

definition aLoc :: Loc where
  "aLoc = (1, 0, 0)"

definition aSig :: Expression where
  "aSig = Send 10 aLoc (Send 11 aLoc (Self 12 aLoc 0) 4 [] None) 5 [] None"

definition aCall :: Expression where
  "aCall = MethodDef 20 aLoc 0 3 [UnresolvedIdent 21 aLoc 0 6] (EmptyTree 22 aLoc) False"

definition aCommand :: "Expression list \<Rightarrow> Expression" where
  "aCommand body =
     ClassDef 1 aLoc 0 (UnresolvedIdent 2 aLoc 0 30)
       [ConstantLit 3 aLoc (ConstantLit 4 aLoc (EmptyTree 5 aLoc) 2) 1] body Class"

definition noStore :: store where
  "noStore = (\<lambda>a. EmptyTree a aLoc)"

section \<open>The slow path\<close>









section \<open>Notions used in the properties\<close>

text \<open>
  A copy made from allocator \<open>s\<close> to allocator \<open>s'\<close>: its nodes lie at the addresses
  allocated in between, and it holds no \<open>TreeRef\<close>.
\<close>

definition fresh :: "Expression \<Rightarrow> nat \<Rightarrow> nat \<Rightarrow> bool" where
  "fresh c s s' = (s \<le> s' \<and> (\<forall>a \<in> set1_Expr c. s \<le> a \<and> a < s') \<and> set2_Expr c = {})"

definition freshs :: "Expression list \<Rightarrow> nat \<Rightarrow> nat \<Rightarrow> bool" where
  "freshs cs s s' = (s \<le> s' \<and> (\<forall>c \<in> set cs. \<forall>a \<in> set1_Expr c. s \<le> a \<and> a < s') \<and> (\<forall>c \<in> set cs. set2_Expr c = {}))"

text \<open>The rewriter acts on a class: none of its reasons to return early holds.\<close>

definition applies :: "Context \<Rightarrow> Expression \<Rightarrow> bool" where
  "applies ctx C = (isCommand ctx C \<and>
     (\<exists>i. findCall (call_name ctx) (statements C) = Some i \<and> 0 < i \<and> looksLikeSig (statements C ! (i - 1))))"

text \<open>A computation that comes back from every allocator, with a value or with an error.\<close>

definition halts :: "'a copying \<Rightarrow> bool" where
  "halts m = (\<forall>s. m s \<noteq> None)"

section \<open>Properties of the range conversion\<close>

lemma uint_minus_one: "1 \<le> uint (w :: u4) \<Longrightarrow> uint (w - 1) = uint w - 1"
  by (simp add: uint_sub_if' word_le_def)

lemma loc2Range_oneBased:
  assumes "p \<in> oneBased"
  shows "loc2Range p = lspRange (uint (line (fst p)) - 1) (uint (column (fst p)) - 1)
                                (uint (line (snd p)) - 1) (uint (column (snd p)) - 1)"
  using assms
  by (simp add: oneBased_def loc2Range_def lspRange_def lspPosition_def uint_minus_one)

lemma loc2Range_inj: "inj loc2Range"
proof (rule injI)
  fix p q :: "Detail \<times> Detail"
  assume "loc2Range p = loc2Range q"
  then have "line (fst p) - 1 = line (fst q) - 1" "column (fst p) - 1 = column (fst q) - 1"
    "line (snd p) - 1 = line (snd q) - 1" "column (snd p) - 1 = column (snd q) - 1"
    by (simp_all add: loc2Range_def lspPosition_def word_uint_eq_iff)
  then show "p = q"
    by (simp add: prod_eq_iff)
qed

lemma loc2Range_image: "loc2Range ` oneBased = zeroBased"
proof (rule set_eqI, rule iffI)
  fix r
  assume "r \<in> loc2Range ` oneBased"
  then obtain p where p: "p \<in> oneBased" and r: "r = loc2Range p"
    by blast
  have b: "uint w - 1 < 2 ^ 32 - 1" for w :: u4
    using uint_bounded [of w] by simp
  from p have "1 \<le> uint (line (fst p))" "1 \<le> uint (column (fst p))"
    "1 \<le> uint (line (snd p))" "1 \<le> uint (column (snd p))"
    by (simp_all add: oneBased_def)
  then show "r \<in> zeroBased"
    unfolding zeroBased_def r loc2Range_oneBased [OF p]
    using b by fastforce
next
  fix r
  assume "r \<in> zeroBased"
  then obtain sl sc el ec where r: "r = lspRange sl sc el ec"
    and sl: "0 \<le> sl" "sl < 2 ^ 32 - 1" and sc: "0 \<le> sc" "sc < 2 ^ 32 - 1"
    and el: "0 \<le> el" "el < 2 ^ 32 - 1" and ec: "0 \<le> ec" "ec < 2 ^ 32 - 1"
    by (auto simp: zeroBased_def)
  have wk: "\<exists>w :: u4. uint w = k + 1" if a: "0 \<le> k" "k < 2 ^ 32 - 1" for k
  proof -
    have "uint (word_of_int (k + 1) :: u4) = take_bit 32 (k + 1)"
      by (simp only: uint_word_of_int_eq len_of_numeral_defs) simp
    also have "\<dots> = k + 1"
      using a by (intro take_bit_int_eq_self) simp_all
    finally show ?thesis
      by (rule exI)
  qed
  obtain wsl wsc wel wec :: u4 where w: "uint wsl = sl + 1" "uint wsc = sc + 1"
    "uint wel = el + 1" "uint wec = ec + 1"
    using wk [OF sl] wk [OF sc] wk [OF el] wk [OF ec] by blast
  define p :: "Detail \<times> Detail" where
    "p = (\<lparr>line = wsl, column = wsc\<rparr>, \<lparr>line = wel, column = wec\<rparr>)"
  have "p \<in> oneBased"
    using sl sc el ec by (simp add: p_def oneBased_def w)
  moreover have "loc2Range p = r"
    using loc2Range_oneBased [OF \<open>p \<in> oneBased\<close>]
    by (simp add: r p_def w)
  ultimately show "r \<in> loc2Range ` oneBased"
    by (metis imageI)
qed

text \<open>
  C9. Each of the four numbers of an emitted range is the internal 1-based number minus
  exactly one (as integers: no wrap-around on a 1-based position), and the conversion
  is a bijection between the 1-based positions and the 0-based ranges.
\<close>

theorem loc2Range_bijection:
  "(\<forall>p \<in> oneBased.
      loc2Range p = lspRange (uint (line (fst p)) - 1) (uint (column (fst p)) - 1)
                             (uint (line (snd p)) - 1) (uint (column (snd p)) - 1))
   \<and> bij_betw loc2Range oneBased zeroBased"
proof
  show "\<forall>p \<in> oneBased.
      loc2Range p = lspRange (uint (line (fst p)) - 1) (uint (column (fst p)) - 1)
                             (uint (line (snd p)) - 1) (uint (column (snd p)) - 1)"
    using loc2Range_oneBased by blast
  show "bij_betw loc2Range oneBased zeroBased"
    unfolding bij_betw_def
    using loc2Range_inj loc2Range_image by (meson inj_on_subset subset_UNIV)
qed

theorem loc2Range_bijection_witness:
  "(\<lparr>line = 5, column = 23\<rparr>, \<lparr>line = 6, column = 1\<rparr>) \<in> oneBased
   \<and> loc2Range (\<lparr>line = 5, column = 23\<rparr>, \<lparr>line = 6, column = 1\<rparr>) = lspRange 4 22 5 0
   \<and> lspRange 4 22 5 0 \<in> zeroBased"
proof -
  let ?p = "(\<lparr>line = 5, column = 23\<rparr>, \<lparr>line = 6, column = 1\<rparr>) :: Detail \<times> Detail"
  have p: "?p \<in> oneBased"
    by (simp add: oneBased_def)
  have "loc2Range ?p = lspRange (uint (line (fst ?p)) - 1)
      (uint (column (fst ?p)) - 1) (uint (line (snd ?p)) - 1) (uint (column (snd ?p)) - 1)"
    using loc2Range_bijection p by blast
  then have eq: "loc2Range ?p = lspRange 4 22 5 0"
    by simp
  have "loc2Range ?p \<in> zeroBased"
    using loc2Range_bijection p unfolding bij_betw_def by blast
  then have "lspRange 4 22 5 0 \<in> zeroBased"
    unfolding eq .
  with p eq show ?thesis
    by blast
qed

section \<open>Properties of the dispatcher\<close>

lemma getMethod_unknown:
  assumes "n \<notin> name ` set (ALL_METHODS reg)"
  shows "getMethod reg n = \<lparr>name = n, isNotification = True, kind = ClientInitiated, isSupported = False\<rparr>"
proof -
  have "find (\<lambda>candidate. name candidate = n) (ALL_METHODS reg) = None"
    using assms by (auto simp: find_None_iff)
  then show ?thesis by (simp add: getMethod_def)
qed

lemma namedInTable_names:
  assumes "namedInTable reg" "n \<notin> name ` set (ALL_METHODS reg)"
  shows "name (Initialize reg) \<noteq> n" "name (Inititalized reg) \<noteq> n" "name (Shutdown reg) \<noteq> n"
    "name (Exit reg) \<noteq> n" "name (DidChangeWatchedFiles reg) \<noteq> n"
    "name (TextDocumentDidChange reg) \<noteq> n" "name (TextDocumentDocumentSymbol reg) \<noteq> n"
  using assms by (auto simp: namedInTable_def Let_def)

lemma not_a_reply:
  "FindMember d ''result'' = None \<Longrightarrow> FindMember d ''error'' = None \<Longrightarrow>
   handleReplies env reg s d = Some (False, s)"
  by (simp add: handleReplies_def)

lemma unknown_method_ignored:
  assumes "namedInTable reg"
    and "FindMember d ''result'' = None" and "FindMember d ''error'' = None"
    and "FindMember d ''method'' = Some (JString n)"
    and "n \<notin> name ` set (ALL_METHODS reg)"
  shows "processMessage env reg s d = Some (Continue, s)"
proof -
  note h = not_a_reply [OF assms(2,3)]
  note g = getMethod_unknown [OF assms(5)]
  note nm = namedInTable_names [OF assms(1,5)]
  have "notification env reg (getMethod reg n) d s = Some (Continue, s)"
    using nm by (simp add: notification_def g sameMethod_def)
  then show ?thesis
    using assms(4) by (simp add: processMessage_def h g)
qed

lemma unsupported_request_refused:
  assumes "FindMember d ''result'' = None" and "FindMember d ''error'' = None"
    and "FindMember d ''method'' = Some (JString n)"
    and "find (\<lambda>candidate. name candidate = n) (ALL_METHODS reg) = Some m"
    and "\<not> isNotification m" and "kind m = ClientInitiated \<or> kind m = Both" and "\<not> isSupported m"
    and "n \<noteq> name (Initialize reg)" and "n \<noteq> name (Shutdown reg)"
    and "n \<noteq> name (TextDocumentDocumentSymbol reg)"
  shows "processMessage env reg s d
           = Some (Continue, sendError d MethodNotFound (''Unknown method: '' @ n) s)"
proof -
  note h = not_a_reply [OF assms(1,2)]
  have g: "getMethod reg n = m"
    using assms(4) by (simp add: getMethod_def)
  have nm: "name m = n"
    using assms(4) by (auto simp: find_Some_iff)
  have "request env reg m d s = Some (Continue, sendError d MethodNotFound (''Unknown method: '' @ n) s)"
    using assms(7-10) by (simp add: request_def sameMethod_def nm)
  then show ?thesis
    using assms(3,5,6) by (auto simp: processMessage_def h g)
qed

text \<open>
  C4, as the code has it. A message that is not a reply and whose method name is not in
  the registry is dispatched as a synthesized notification: nothing is written, the
  state is unchanged and the loop continues. The error envelope with code
  \<open>MethodNotFound\<close> is the answer to an unsupported request method of the registry
  other than \<open>initialize\<close>, \<open>shutdown\<close> and \<open>textDocument/documentSymbol\<close>.
\<close>

theorem unknown_method_not_answered:
  assumes "namedInTable reg"
    and "FindMember d ''result'' = None" and "FindMember d ''error'' = None"
    and "FindMember d ''method'' = Some (JString n)"
  shows "(n \<notin> name ` set (ALL_METHODS reg) \<longrightarrow> processMessage env reg s d = Some (Continue, s))
       \<and> (\<forall>m. find (\<lambda>candidate. name candidate = n) (ALL_METHODS reg) = Some m
               \<and> \<not> isNotification m \<and> (kind m = ClientInitiated \<or> kind m = Both) \<and> \<not> isSupported m
               \<and> n \<noteq> name (Initialize reg) \<and> n \<noteq> name (Shutdown reg)
               \<and> n \<noteq> name (TextDocumentDocumentSymbol reg)
             \<longrightarrow> processMessage env reg s d
                   = Some (Continue, sendError d MethodNotFound (''Unknown method: '' @ n) s))"
  using unknown_method_ignored [OF assms] unsupported_request_refused [OF assms(2-4)]
  by blast

lemma namedInTable_lspRegistry: "namedInTable lspRegistry"
  by (simp add: namedInTable_def lspRegistry_def lspMethod_def)

lemma namedInTable_withHover: "namedInTable withHover"
  by (simp add: namedInTable_def withHover_def lspRegistry_def lspMethod_def)

theorem unknown_method_not_answered_witness:
  "namedInTable withHover
   \<and> processMessage quiet withHover (startAt 0)
       [(''jsonrpc'', JString ''2.0''), (''id'', JNumber 7), (''method'', JString ''textDocument/rename'')]
     = Some (Continue, startAt 0)
   \<and> processMessage quiet withHover (startAt 0)
       [(''jsonrpc'', JString ''2.0''), (''id'', JNumber 8), (''method'', JString ''textDocument/hover'')]
     = Some (Continue, (startAt 0)\<lparr>written :=
         [[(''jsonrpc'', JString ''2.0''), (''id'', JNumber 8),
           (''error'', JObject [(''code'', JNumber (- 32601)),
                                (''message'', JString ''Unknown method: textDocument/hover'')])]]\<rparr>)"
proof -
  let ?d1 = "[(''jsonrpc'', JString ''2.0''), (''id'', JNumber 7), (''method'', JString ''textDocument/rename'')]"
  let ?d2 = "[(''jsonrpc'', JString ''2.0''), (''id'', JNumber 8), (''method'', JString ''textDocument/hover'')]"
  have u: "''textDocument/rename'' \<notin> name ` set (ALL_METHODS withHover)"
    by (simp add: withHover_def lspRegistry_def lspMethod_def)
  have 1: "processMessage quiet withHover (startAt 0) ?d1 = Some (Continue, startAt 0)"
    using unknown_method_not_answered [OF namedInTable_withHover, of ?d1 "''textDocument/rename''"
        quiet "startAt 0"] u
    by (simp add: FindMember_def)
  have f: "find (\<lambda>candidate. name candidate = ''textDocument/hover'') (ALL_METHODS withHover)
             = Some \<lparr>name = ''textDocument/hover'', isNotification = False,
                     kind = ClientInitiated, isSupported = False\<rparr>"
    by (simp add: withHover_def lspRegistry_def lspMethod_def)
  have "processMessage quiet withHover (startAt 0) ?d2
          = Some (Continue, sendError ?d2 MethodNotFound (''Unknown method: '' @ ''textDocument/hover'') (startAt 0))"
    using unknown_method_not_answered [OF namedInTable_withHover, of ?d2 "''textDocument/hover''"
        quiet "startAt 0"] f
    by (simp add: FindMember_def withHover_def lspRegistry_def lspMethod_def)
  then have 2: "processMessage quiet withHover (startAt 0) ?d2
     = Some (Continue, (startAt 0)\<lparr>written :=
         [[(''jsonrpc'', JString ''2.0''), (''id'', JNumber 8),
           (''error'', JObject [(''code'', JNumber (- 32601)),
                                (''message'', JString ''Unknown method: textDocument/hover'')])]]\<rparr>)"
    by (simp add: sendError_def sendRaw_def RemoveMember_def AddMember_def MethodNotFound_def startAt_def)
  from namedInTable_withHover 1 2 show ?thesis
    by blast
qed

text \<open>
  The claim as stated fails: a request (it carries an id) for the unregistered method
  \<open>textDocument/rename\<close> leaves the loop running with nothing written, so no error
  envelope is sent.
\<close>

theorem unknown_request_gets_no_error:
  "runLSP quiet lspRegistry (startAt 0)
     [[(''jsonrpc'', JString ''2.0''), (''id'', JNumber 7), (''method'', JString ''textDocument/rename'')]]
   = Some (startAt 0)
   \<and> written (startAt 0) = []"
  by (simp add: processMessage_def handleReplies_def FindMember_def getMethod_def lspRegistry_def
      lspMethod_def notification_def sameMethod_def startAt_def)

section \<open>Properties of request ids\<close>

declare show_nat.simps [simp del]

lemma sendNotification_Some:
  assumes "sendNotification meth data s = Some t"
  shows "requestCounter t = requestCounter s + 1"
    and "written t = written s @ [[(''method'', JString (name meth)), (''params'', data)]]"
    and "awaitingResponse t = awaitingResponse s" and "history t = history s"
  using assms by (auto simp: sendNotification_def sendRaw_def Let_def split: if_splits)

lemma sendRequest_Some:
  assumes "sendRequest meth data onComplete onFail s = Some t"
  shows "requestCounter t = requestCounter s + 1"
    and "written t = written s @ [[(''id'', JString (idStr (requestCounter s + 1))),
                                   (''method'', JString (name meth)), (''params'', data)]]"
    and "awaitingResponse t = (awaitingResponse s)(idStr (requestCounter s + 1) \<mapsto>
                                 \<lparr>onResult = onComplete, onError = onFail\<rparr>)"
    and "history t = history s @ [Registered (idStr (requestCounter s + 1))]"
  using assms by (auto simp: sendRequest_def sendRaw_def Let_def split: if_splits)

lemma show_2: "show_int 2 = ''2''"
  by (simp add: show_int_def show_nat.simps digit_def)

lemma show_1: "show_int 1 = ''1''"
  by (simp add: show_int_def show_nat.simps digit_def)

text \<open>
  C7. On a run that starts with the counter at 0, \<open>initialized\<close> publishes the
  diagnostics of one file through \<open>sendNotification\<close>, which increments
  \<open>requestCounter\<close> for an id string that it never uses. The first server-initiated
  request of the run, sent for \<open>workspace/didChangeWatchedFiles\<close>, then carries the id
  \<open>ruby-typer-req-2\<close>: the two documents written are the notification, without an id,
  and that request, and the counter ends at 2. On the same messages with nothing to
  publish, the request carries the id \<open>ruby-typer-req-1\<close>.
\<close>

theorem first_request_id_is_not_1:
  "map_option (\<lambda>t. (written t, sint (requestCounter t)))
     (runLSP oneDiagnostic lspRegistry (startAt 0)
         [[(''method'', JString ''initialized'')],
          [(''method'', JString ''workspace/didChangeWatchedFiles''), (''params'', JNull)]])
   = Some ([[(''method'', JString ''textDocument/publishDiagnostics''),
             (''params'', JObject [(''uri'', JString ''file:///w/a.rb''), (''diagnostics'', JArray [])])],
            [(''id'', JString ''ruby-typer-req-2''), (''method'', JString ''readFile''), (''params'', JNull)]],
           2)
   \<and> map_option (\<lambda>t. (written t, sint (requestCounter t)))
     (runLSP quiet lspRegistry (startAt 0)
         [[(''method'', JString ''initialized'')],
          [(''method'', JString ''workspace/didChangeWatchedFiles''), (''params'', JNull)]])
   = Some ([[(''id'', JString ''ruby-typer-req-1''), (''method'', JString ''readFile''), (''params'', JNull)]],
           1)"
  by (simp add: processMessage_def handleReplies_def FindMember_def getMethod_def lspRegistry_def lspMethod_def
     notification_def sameMethod_def startAt_def oneDiagnostic_def quiet_def pushErrors_def sendNotification_def
     sendRequest_def sendRaw_def idStr_def show_2 show_1 didChange_def Let_def)

section \<open>Properties of the reply handler\<close>

lemma sendNotifications_keeps:
  "sendNotifications meth xs s = Some t \<Longrightarrow>
     awaitingResponse t = awaitingResponse s \<and> history t = history s"
proof (induction xs arbitrary: s)
  case Nil
  then show ?case by simp
next
  case (Cons x xs)
  then show ?case
    by (auto split: option.splits dest: sendNotification_Some(3,4))
qed

lemma pushErrors_keeps:
  "pushErrors env reg s = Some t \<Longrightarrow>
     awaitingResponse t = awaitingResponse s \<and> history t = history s"
  by (auto simp: pushErrors_def split: Option.bind_splits prod.splits dest: sendNotifications_keeps)

lemma invoke_keeps:
  "invoke env reg func v s = Some t \<Longrightarrow>
     awaitingResponse t = awaitingResponse s \<and> history t = history s"
proof (cases func)
  case ApplyReadFile
  assume a: "invoke env reg func v s = Some t"
  show ?thesis
  proof (cases v)
    case (JArray edits)
    with a ApplyReadFile show ?thesis
      by (auto split: Option.bind_splits dest: pushErrors_keeps)
  qed (use a ApplyReadFile in simp_all)
next
  case IgnoreError
  assume "invoke env reg func v s = Some t"
  with IgnoreError show ?thesis by simp
qed

lemma reply_no_id: "FindMember d ''id'' = None \<Longrightarrow> reply env reg which payload d s = Some s"
  by (simp add: reply_def)

lemma reply_unmatched:
  "FindMember d ''id'' = Some (JString key) \<Longrightarrow> awaitingResponse s key = None \<Longrightarrow>
   reply env reg which payload d s = Some s"
  by (simp add: reply_def)

lemma reply_matched:
  "FindMember d ''id'' = Some (JString key) \<Longrightarrow> awaitingResponse s key = Some fnd \<Longrightarrow>
   reply env reg which payload d s =
     invoke env reg (which fnd) payload
       (s\<lparr>awaitingResponse := (awaitingResponse s)(key := None),
          history := history s @ [Called key (which fnd)]\<rparr>)"
  by (simp add: reply_def Let_def)

lemma reply_erased:
  assumes "FindMember d ''id'' = Some (JString key)" "awaitingResponse s key = Some fnd"
    and "reply env reg which payload d s = Some t"
  shows "awaitingResponse t key = None" and "reply env reg which' payload' d t = Some t"
proof -
  from assms(3) have "awaitingResponse t = (awaitingResponse s)(key := None)"
    unfolding reply_matched [OF assms(1,2)] by (auto dest: invoke_keeps)
  then show "awaitingResponse t key = None" by simp
  then show "reply env reg which' payload' d t = Some t"
    using assms(1) by (rule reply_unmatched [rotated])
qed

lemma processMessage_reply:
  assumes "FindMember d ''result'' = Some payload \<and> which = onResult \<or>
           FindMember d ''result'' = None \<and> FindMember d ''error'' = Some payload \<and> which = onError"
  shows "processMessage env reg s d = map_option (Pair Continue) (reply env reg which payload d s)"
  using assms by (auto simp: processMessage_def handleReplies_def split: option.splits)

lemma registrations_append: "registrations k (h @ [e]) = registrations k h + (if e = Registered k then 1 else 0)"
  by (simp add: registrations_def)

lemma callsOf_append: "callsOf k (h @ [e]) = callsOf k h + (if isCalled k e then 1 else 0)"
  by (simp add: callsOf_def)

lemma accounted_keeps:
  "awaitingResponse t = awaitingResponse s \<Longrightarrow> history t = history s \<Longrightarrow> accounted s \<Longrightarrow> accounted t"
  by (simp add: accounted_def pending_def)

lemma accounted_sendRequest:
  assumes "sendRequest meth data onComplete onFail s = Some t" "accounted s"
  shows "accounted t"
  unfolding accounted_def
proof
  fix k
  note r = sendRequest_Some [OF assms(1)]
  from assms(2) have a: "callsOf k (history s) + pending s k \<le> registrations k (history s)"
    by (simp add: accounted_def)
  show "callsOf k (history t) + pending t k \<le> registrations k (history t)"
    using a by (auto simp: r(3,4) registrations_append callsOf_append pending_def split: option.splits)
qed

lemma accounted_reply:
  assumes "reply env reg which payload d s = Some t" "accounted s"
  shows "accounted t"
proof (cases "FindMember d ''id''")
  case None
  with assms show ?thesis by (simp add: reply_def)
next
  case (Some i)
  show ?thesis
  proof (cases i)
    case (JString key)
    show ?thesis
    proof (cases "awaitingResponse s key")
      case None
      with assms Some JString show ?thesis by (simp add: reply_def)
    next
      case (Some fnd)
      let ?s2 = "s\<lparr>awaitingResponse := (awaitingResponse s)(key := None),
                     history := history s @ [Called key (which fnd)]\<rparr>"
      have inv: "invoke env reg (which fnd) payload ?s2 = Some t"
        using assms(1) reply_matched [of d key s fnd env reg which payload] \<open>FindMember d ''id'' = Some i\<close> JString Some
        by simp
      have "accounted ?s2"
        unfolding accounted_def
      proof
        fix k
        from assms(2) have a: "callsOf k (history s) + pending s k \<le> registrations k (history s)"
          by (simp add: accounted_def)
        show "callsOf k (history ?s2) + pending ?s2 k \<le> registrations k (history ?s2)"
          using a Some by (auto simp: registrations_append callsOf_append pending_def split: option.splits)
      qed
      moreover have "awaitingResponse t = awaitingResponse ?s2" "history t = history ?s2"
        using invoke_keeps [OF inv] by blast+
      ultimately show ?thesis
        by (rule accounted_keeps [rotated 2])
    qed
  qed (use assms Some in \<open>simp_all add: reply_def\<close>)
qed

lemma sendResult_keeps: "awaitingResponse (sendResult d r s) = awaitingResponse s \<and> history (sendResult d r s) = history s"
  by (simp add: sendResult_def sendRaw_def)

lemma sendError_keeps: "awaitingResponse (sendError d c m s) = awaitingResponse s \<and> history (sendError d c m s) = history s"
  by (simp add: sendError_def sendRaw_def)

lemma accounted_didChange:
  assumes "didChange env reg d s = Some t" "accounted s"
  shows "accounted t"
proof -
  have "awaitingResponse t = awaitingResponse s \<and> history t = history s"
    using assms(1)
    by (auto simp: didChange_def split: Option.bind_splits if_splits dest!: pushErrors_keeps)
  with assms(2) show ?thesis
    by (auto intro: accounted_keeps)
qed

lemma accounted_notification:
  assumes "notification env reg method d s = Some (c, t)" "accounted s"
  shows "accounted t"
proof -
  from assms(1) obtain s1 s2 where
    s1: "(if sameMethod method (DidChangeWatchedFiles reg)
              then do {
                params \<leftarrow> FindMember d ''params'';
                sendRequest (ReadFile reg) params ApplyReadFile IgnoreError s
              }
              else Some s) = Some s1"
    and s2: "(if sameMethod method (TextDocumentDidChange reg) then didChange env reg d s1
              else Some s1) = Some s2"
    and s3: "(if sameMethod method (Inititalized reg)
              then do {
                p1 \<leftarrow> reIndex env True (pipeline s2);
                p2 \<leftarrow> slowPath env [] p1;
                pushErrors env reg (s2\<lparr>pipeline := p2\<rparr>)
              }
              else Some s2) = Some t"
    unfolding notification_def by (auto split: Option.bind_splits)
  from s1 assms(2) have a1: "accounted s1"
    by (auto split: if_splits Option.bind_splits intro: accounted_sendRequest)
  from s2 a1 have a2: "accounted s2"
    by (auto split: if_splits intro: accounted_didChange)
  have "awaitingResponse t = awaitingResponse s2 \<and> history t = history s2"
    using s3 by (auto split: if_splits Option.bind_splits dest!: pushErrors_keeps)
  with a2 show ?thesis
    by (auto intro: accounted_keeps)
qed

lemma accounted_request:
  assumes "request env reg method d s = Some (c, t)" "accounted s"
  shows "accounted t"
proof -
  have "awaitingResponse t = awaitingResponse s \<and> history t = history s"
    using assms(1)
    by (auto simp: request_def sendResult_keeps sendError_keeps split: if_splits Option.bind_splits)
  with assms(2) show ?thesis
    by (auto intro: accounted_keeps)
qed

lemma accounted_processMessage:
  assumes "processMessage env reg s d = Some (c, t)" "accounted s"
  shows "accounted t"
proof (cases "handleReplies env reg s d")
  case None
  with assms show ?thesis by (simp add: processMessage_def)
next
  case (Some r)
  obtain b s1 where r: "r = (b, s1)" by (cases r)
  show ?thesis
  proof (cases b)
    case True
    with Some r assms(1) have t: "t = s1" by (simp add: processMessage_def)
    from Some r True have "\<exists>which payload. reply env reg which payload d s = Some s1"
      by (auto simp: handleReplies_def split: option.splits)
    with assms(2) t show ?thesis
      by (auto intro: accounted_reply)
  next
    case False
    with Some r have "s1 = s"
      by (auto simp: handleReplies_def split: option.splits)
    with Some r False assms show ?thesis
      by (auto simp: processMessage_def Let_def split: Option.bind_splits if_splits
               intro: accounted_notification accounted_request)
  qed
qed

lemma accounted_runLSP:
  "runLSP env reg s ds = Some t \<Longrightarrow> accounted s \<Longrightarrow> accounted t"
proof (induction ds arbitrary: s)
  case Nil
  then show ?case by simp
next
  case (Cons d ds)
  from Cons.prems(1) obtain c s1 where p: "processMessage env reg s d = Some (c, s1)"
    by (auto split: option.splits)
  then have a: "accounted s1"
    using Cons.prems(2) by (rule accounted_processMessage)
  show ?case
  proof (cases c)
    case Continue
    with p Cons.prems(1) have "runLSP env reg s1 ds = Some t" by simp
    then show ?thesis using a by (rule Cons.IH)
  next
    case Leave
    with p Cons.prems(1) a show ?thesis by simp
  qed
qed

lemma accounted_calls: "accounted s \<Longrightarrow> callsOf k (history s) \<le> registrations k (history s)"
  unfolding accounted_def by (meson add_leD1)

text \<open>
  C10, as the code has it. A document with a top-level \<open>result\<close> (or, without one, a
  top-level \<open>error\<close>) is handled by the reply handler alone: the result of the
  iteration is that of \<open>reply\<close>, whatever else the document holds, and the loop
  continues when \<open>reply\<close> returns. Without an id, or with a string id that has no
  pending entry, the state is unchanged. With an id that is not a string the
  \<open>GetString\<close> of the handler fails its assertion and the iteration has no result. With a pending
  entry, the callback runs on the state from which the entry is already erased; when
  it returns the entry is still absent, and the same reply delivered again is dropped.
  Over a whole run, under every key the callbacks called never outnumber the handlers
  registered.
\<close>

theorem replies_consumed_once:
  assumes "FindMember d ''result'' = Some payload \<and> which = onResult \<or>
           FindMember d ''result'' = None \<and> FindMember d ''error'' = Some payload \<and> which = onError"
  shows "processMessage env reg s d = map_option (Pair Continue) (reply env reg which payload d s)
       \<and> (FindMember d ''id'' = None \<longrightarrow> reply env reg which payload d s = Some s)
       \<and> (\<forall>i. FindMember d ''id'' = Some i \<and> GetString i = None \<longrightarrow> processMessage env reg s d = None)
       \<and> (\<forall>key. FindMember d ''id'' = Some (JString key) \<and> awaitingResponse s key = None
             \<longrightarrow> reply env reg which payload d s = Some s)
       \<and> (\<forall>key fnd. FindMember d ''id'' = Some (JString key) \<and> awaitingResponse s key = Some fnd
             \<longrightarrow> reply env reg which payload d s
                   = invoke env reg (which fnd) payload
                       (s\<lparr>awaitingResponse := (awaitingResponse s)(key := None),
                          history := history s @ [Called key (which fnd)]\<rparr>)
                 \<and> (\<forall>t. reply env reg which payload d s = Some t
                         \<longrightarrow> awaitingResponse t key = None \<and> reply env reg which payload d t = Some t))
       \<and> (\<forall>ds t k. accounted s \<and> runLSP env reg s (d # ds) = Some t
             \<longrightarrow> callsOf k (history t) \<le> registrations k (history t))"
proof (intro conjI allI impI)
  show "processMessage env reg s d = map_option (Pair Continue) (reply env reg which payload d s)"
    using assms by (rule processMessage_reply)
next
  assume "FindMember d ''id'' = None"
  then show "reply env reg which payload d s = Some s"
    by (rule reply_no_id)
next
  fix i
  assume "FindMember d ''id'' = Some i \<and> GetString i = None"
  then have "reply env reg which payload d s = None"
    by (simp add: reply_def)
  then show "processMessage env reg s d = None"
    unfolding processMessage_reply [OF assms] by simp
next
  fix key
  assume "FindMember d ''id'' = Some (JString key) \<and> awaitingResponse s key = None"
  then show "reply env reg which payload d s = Some s"
    by (simp add: reply_unmatched)
next
  fix key fnd
  assume "FindMember d ''id'' = Some (JString key) \<and> awaitingResponse s key = Some fnd"
  then show "reply env reg which payload d s
                   = invoke env reg (which fnd) payload
                       (s\<lparr>awaitingResponse := (awaitingResponse s)(key := None),
                          history := history s @ [Called key (which fnd)]\<rparr>)"
    by (simp add: reply_matched)
next
  fix key fnd t
  assume a: "FindMember d ''id'' = Some (JString key) \<and> awaitingResponse s key = Some fnd"
    and t: "reply env reg which payload d s = Some t"
  from a t show "awaitingResponse t key = None"
    by (blast dest: reply_erased(1))
  from a t show "reply env reg which payload d t = Some t"
    by (blast dest: reply_erased(2))
next
  fix ds t k
  assume "accounted s \<and> runLSP env reg s (d # ds) = Some t"
  then have "accounted t"
    by (blast dest: accounted_runLSP)
  then show "callsOf k (history t) \<le> registrations k (history t)"
    by (rule accounted_calls)
qed

theorem replies_consumed_once_witness:
  "FindMember [(''id'', JString ''ruby-typer-req-1''), (''result'', JArray [])] ''result'' = Some (JArray [])
   \<and> accounted waiting
   \<and> (\<exists>t. processMessage quiet lspRegistry waiting
              [(''id'', JString ''ruby-typer-req-1''), (''result'', JArray [])] = Some (Continue, t)
          \<and> awaitingResponse t ''ruby-typer-req-1'' = None
          \<and> history t = [Registered ''ruby-typer-req-1'', Called ''ruby-typer-req-1'' ApplyReadFile]
          \<and> processMessage quiet lspRegistry t
              [(''id'', JString ''ruby-typer-req-1''), (''result'', JArray [])] = Some (Continue, t)
          \<and> callsOf ''ruby-typer-req-1'' (history t) \<le> registrations ''ruby-typer-req-1'' (history t))"
proof -
  let ?d = "[(''id'', JString ''ruby-typer-req-1''), (''result'', JArray [])]"
  let ?k = "''ruby-typer-req-1''"
  have r: "FindMember ?d ''result'' = Some (JArray [])"
    by (simp add: FindMember_def)
  have i: "FindMember ?d ''id'' = Some (JString ?k)"
    by (simp add: FindMember_def)
  have w: "awaitingResponse waiting ?k = Some \<lparr>onResult = ApplyReadFile, onError = IgnoreError\<rparr>"
    by (simp add: waiting_def)
  have acc: "accounted waiting"
    by (simp add: accounted_def waiting_def callsOf_def registrations_def pending_def startAt_def)
  have a: "FindMember ?d ''result'' = Some (JArray []) \<and> onResult = onResult \<or>
           FindMember ?d ''result'' = None \<and> FindMember ?d ''error'' = Some (JArray []) \<and> onResult = onError"
    using r by simp
  note T = replies_consumed_once [OF a, of quiet lspRegistry]
  let ?s2 = "waiting\<lparr>awaitingResponse := (awaitingResponse waiting)(?k := None),
                      history := history waiting @ [Called ?k ApplyReadFile]\<rparr>"
  have rep: "reply quiet lspRegistry onResult (JArray []) ?d waiting
               = invoke quiet lspRegistry ApplyReadFile (JArray []) ?s2"
    using T [of waiting] i w by simp
  have inv: "invoke quiet lspRegistry ApplyReadFile (JArray []) ?s2 = Some ?s2"
    by (simp add: pushErrors_def quiet_def)
  have p1: "processMessage quiet lspRegistry waiting ?d = Some (Continue, ?s2)"
    using T [of waiting] rep inv by simp
  have e: "awaitingResponse ?s2 ?k = None"
    by simp
  have p2: "processMessage quiet lspRegistry ?s2 ?d = Some (Continue, ?s2)"
    using T [of ?s2] i e by simp
  have h: "history ?s2 = [Registered ?k, Called ?k ApplyReadFile]"
    by (simp add: waiting_def)
  have run: "runLSP quiet lspRegistry waiting [?d] = Some ?s2"
    using p1 by simp
  have c: "callsOf ?k (history ?s2) \<le> registrations ?k (history ?s2)"
    using T [of waiting] acc run by blast
  from r acc p1 e h p2 c show ?thesis
    by blast
qed

text \<open>
  The claim as stated fails on a reply whose id is a number: it matches no pending entry,
  and it is not dropped. \<open>handleReplies\<close> calls \<open>GetString\<close> on the id without a
  test, the assertion of rapidjson fails, and the iteration ends there.
\<close>

theorem reply_with_number_id_is_not_dropped:
  "FindMember [(''id'', JNumber 1), (''result'', JArray [])] ''result'' = Some (JArray [])
   \<and> FindMember [(''id'', JNumber 1), (''result'', JArray [])] ''id'' = Some (JNumber 1)
   \<and> processMessage quiet lspRegistry waiting [(''id'', JNumber 1), (''result'', JArray [])] = None
   \<and> runLSP quiet lspRegistry waiting [[(''id'', JNumber 1), (''result'', JArray [])]] = None"
  by (simp add: processMessage_def handleReplies_def reply_def FindMember_def)

section \<open>Properties of deep copy\<close>

lemma ret_Inr [simp]: "ret x s = Some (Inr r) \<longleftrightarrow> r = (x, s)"
  by (auto simp: ret_def)

lemma ret_not_Inl [simp]: "ret x s \<noteq> Some (Inl e)" and ret_not_None [simp]: "ret x s \<noteq> None"
  by (simp_all add: ret_def)

lemma make_unique_Inr [simp]: "make_unique mk s = Some (Inr r) \<longleftrightarrow> r = (mk s, Suc s)"
  by (auto simp: make_unique_def)

lemma make_unique_not_Inl [simp]: "make_unique mk s \<noteq> Some (Inl e)"
  and make_unique_not_None [simp]: "make_unique mk s \<noteq> None"
  by (simp_all add: make_unique_def)

lemma throw_Inr [simp]: "throw e s \<noteq> Some (Inr r)" and throw_not_None [simp]: "throw e s \<noteq> None"
  by (simp_all add: throw_def)

lemma throw_Inl [simp]: "throw e s = Some (Inl e') \<longleftrightarrow> e = e'"
  by (auto simp: throw_def)

lemma bindC_Inr: "bindC m f s = Some (Inr r) \<longleftrightarrow> (\<exists>x s1. m s = Some (Inr (x, s1)) \<and> f x s1 = Some (Inr r))"
  by (auto simp: bindC_def split: option.splits sum.splits)

lemma bindC_Inl: "bindC m f s = Some (Inl e) \<longleftrightarrow>
    m s = Some (Inl e) \<or> (\<exists>x s1. m s = Some (Inr (x, s1)) \<and> f x s1 = Some (Inl e))"
  by (auto simp: bindC_def split: option.splits sum.splits)

lemma bindC_None: "bindC m f s = None \<longleftrightarrow>
    m s = None \<or> (\<exists>x s1. m s = Some (Inr (x, s1)) \<and> f x s1 = None)"
  by (auto simp: bindC_def split: option.splits sum.splits)

lemma deepCopyVec_fresh:
  assumes "deepCopyVec cp xs s = Some (Inr (cs, s'))"
    and "\<And>x s c s'. cp x s = Some (Inr (c, s')) \<Longrightarrow> fresh c s s'"
  shows "freshs cs s s'"
  using assms(1)
proof (induction xs arbitrary: s cs)
  case Nil
  then show ?case by (simp add: freshs_def)
next
  case (Cons x xs)
  from Cons.prems obtain c s1 cs1 where c: "cp x s = Some (Inr (c, s1))"
    and r: "deepCopyVec cp xs s1 = Some (Inr (cs1, s'))" and cs: "cs = c # cs1"
    by (auto simp: bindC_Inr)
  from assms(2) [OF c] Cons.IH [OF r] show ?case
    unfolding cs by (fastforce simp: fresh_def freshs_def)
qed

lemma deepCopyBlock_fresh:
  assumes "deepCopyBlock cp b s = Some (Inr (b', s'))"
    and "\<And>x s c s'. cp x s = Some (Inr (c, s')) \<Longrightarrow> fresh c s s'"
  shows "s \<le> s' \<and> (\<forall>c \<in> set_option b'. fresh c s s')"
proof (cases b)
  case None
  with assms(1) show ?thesis by simp
next
  case (Some x)
  with assms(1) obtain c where "cp x s = Some (Inr (c, s'))" "b' = Some c"
    by (auto simp: bindC_Inr)
  with assms(2) [of x s c s'] show ?thesis by (simp add: fresh_def)
qed

lemma deepCopy'_fresh:
  "deepCopy' ord n h avoid root e s = Some (Inr (c, s')) \<Longrightarrow> fresh c s s'"
proof (induction n arbitrary: ord root e s c s')
  case 0
  then show ?case by simp
next
  case (Suc n)
  note IH = Suc.IH
  have V: "\<And>ord xs s cs s'. deepCopyVec (deepCopy' ord n h avoid False) xs s = Some (Inr (cs, s')) \<Longrightarrow> freshs cs s s'"
    by (erule deepCopyVec_fresh) (rule IH)
  have B: "\<And>ord b s b' s'. deepCopyBlock (deepCopy' ord n h avoid False) b s = Some (Inr (b', s'))
      \<Longrightarrow> s \<le> s' \<and> (\<forall>c \<in> set_option b'. fresh c s s')"
    by (erule deepCopyBlock_fresh) (rule IH)
  from Suc.prems show ?case
    apply (cases ord; cases e)
    apply (simp_all only: deepCopy'.simps Expr.case arguments_def order.case)
    apply (clarsimp simp: bindC_Inr split: if_splits option.splits, ((drule IH V B)+)?, (simp add: fresh_def freshs_def)?, fastforce?)+
    done
qed

lemma deepCopyVec_rel:
  assumes "deepCopyVec cp xs s = Some (Inr (cs, s'))"
    and "\<And>x s c s'. cp x s = Some (Inr (c, s')) \<Longrightarrow> set2_Expr x = {} \<Longrightarrow> rel_Expr (\<lambda>a b. True) (=) x c"
    and "\<forall>x \<in> set xs. set2_Expr x = {}"
  shows "list_all2 (rel_Expr (\<lambda>a b. True) (=)) xs cs"
  using assms(1,3)
proof (induction xs arbitrary: s cs)
  case Nil
  then show ?case by simp
next
  case (Cons x xs)
  from Cons.prems obtain c s1 cs1 where c: "cp x s = Some (Inr (c, s1))"
    and r: "deepCopyVec cp xs s1 = Some (Inr (cs1, s'))" and cs: "cs = c # cs1"
    by (auto simp: bindC_Inr)
  from assms(2) [OF c] Cons.IH [OF r] Cons.prems(2) show ?case
    unfolding cs by simp
qed

lemma deepCopyBlock_rel:
  assumes "deepCopyBlock cp b s = Some (Inr (b', s'))"
    and "\<And>x s c s'. cp x s = Some (Inr (c, s')) \<Longrightarrow> set2_Expr x = {} \<Longrightarrow> rel_Expr (\<lambda>a b. True) (=) x c"
    and "\<forall>x \<in> set_option b. set2_Expr x = {}"
  shows "rel_option (rel_Expr (\<lambda>a b. True) (=)) b b'"
proof (cases b)
  case None
  with assms(1) show ?thesis by simp
next
  case (Some x)
  with assms(1) obtain c where "cp x s = Some (Inr (c, s'))" "b' = Some c"
    by (auto simp: bindC_Inr)
  with assms(2) [of x s c s'] assms(3) Some show ?thesis by simp
qed

lemma deepCopy'_rel:
  "deepCopy' ord n h avoid root e s = Some (Inr (c, s')) \<Longrightarrow> set2_Expr e = {} \<Longrightarrow>
   rel_Expr (\<lambda>a b. True) (=) e c"
proof (induction n arbitrary: ord root e s c s')
  case 0
  then show ?case by simp
next
  case (Suc n)
  note IH = Suc.IH
  have V: "\<And>ord xs s cs s'. deepCopyVec (deepCopy' ord n h avoid False) xs s = Some (Inr (cs, s'))
      \<Longrightarrow> \<forall>x \<in> set xs. set2_Expr x = {} \<Longrightarrow> list_all2 (rel_Expr (\<lambda>a b. True) (=)) xs cs"
    by (erule deepCopyVec_rel) (rule IH)
  have B: "\<And>ord b s b' s'. deepCopyBlock (deepCopy' ord n h avoid False) b s = Some (Inr (b', s'))
      \<Longrightarrow> \<forall>x \<in> set_option b. set2_Expr x = {} \<Longrightarrow> rel_option (rel_Expr (\<lambda>a b. True) (=)) b b'"
    by (erule deepCopyBlock_rel) (rule IH)
  from Suc.prems show ?case
    apply (cases ord; cases e)
    apply (simp_all only: deepCopy'.simps Expr.case arguments_def order.case)
    apply (clarsimp simp: bindC_Inr split: if_splits option.splits, ((drule (1) IH V B)+)?, simp?)+
    done
qed

lemma deepCopyVec_Inl:
  "deepCopyVec cp xs s = Some (Inl e) \<Longrightarrow> \<exists>x \<in> set xs. \<exists>s1. cp x s1 = Some (Inl e)"
proof (induction xs arbitrary: s)
  case Nil
  then show ?case by simp
next
  case (Cons x xs)
  then show ?case by (fastforce simp: bindC_Inl)
qed

lemma deepCopyBlock_Inl:
  "deepCopyBlock cp b s = Some (Inl e) \<Longrightarrow> \<exists>x \<in> set_option b. \<exists>s1. cp x s1 = Some (Inl e)"
  by (cases b) (auto simp: bindC_Inl)

lemma error_in_child:
  assumes "deepCopy' ord (Suc n) h avoid root e s = Some (Inl err)"
  shows "(\<not> root \<and> addr e = avoid)
       \<or> (\<exists>a l. e = TreeRef a l None \<or> e = TreeRef a l (Some avoid))
       \<or> (\<exists>a l t s1. e = TreeRef a l (Some t) \<and> deepCopy' ord n h avoid False (h t) s1 = Some (Inl err))
       \<or> (\<exists>x \<in> set (owned e). \<exists>s1. deepCopy' ord n h avoid False x s1 = Some (Inl err))"
  using assms
  apply (cases ord; cases e)
  apply (simp_all only: deepCopy'.simps Expr.case arguments_def order.case)
  apply ((auto simp: bindC_Inl split: if_splits option.splits dest!: deepCopyVec_Inl deepCopyBlock_Inl)[1])+
  done

lemma deepCopyVec_ok:
  "deepCopyVec cp xs s = Some (Inr (cs, s')) \<Longrightarrow> \<forall>x \<in> set xs. \<exists>s1 c1 s2. cp x s1 = Some (Inr (c1, s2))"
proof (induction xs arbitrary: s cs)
  case Nil
  then show ?case by simp
next
  case (Cons x xs)
  then show ?case by (fastforce simp: bindC_Inr)
qed

lemma deepCopyBlock_ok:
  "deepCopyBlock cp b s = Some (Inr (b', s')) \<Longrightarrow> \<forall>x \<in> set_option b. \<exists>s1 c1 s2. cp x s1 = Some (Inr (c1, s2))"
  by (cases b) (auto simp: bindC_Inr)

lemma children_ok:
  assumes "deepCopy' ord (Suc n) h avoid root e s = Some (Inr (c, s'))"
  shows "(root \<or> addr e \<noteq> avoid)
       \<and> (\<forall>a l. e \<noteq> TreeRef a l None \<and> e \<noteq> TreeRef a l (Some avoid))
       \<and> (\<forall>a l t. e = TreeRef a l (Some t) \<longrightarrow> deepCopy' ord n h avoid False (h t) s = Some (Inr (c, s')))
       \<and> (\<forall>x \<in> set (owned e). \<exists>s1 c1 s2. deepCopy' ord n h avoid False x s1 = Some (Inr (c1, s2)))"
  using assms
  apply (cases ord; cases e)
  apply (simp_all only: deepCopy'.simps Expr.case arguments_def order.case)
  apply ((auto simp: bindC_Inr split: if_splits option.splits dest!: deepCopyVec_ok deepCopyBlock_ok)[1])+
  done

lemma deepCopy'_fails:
  "deepCopy' ord n h avoid root e s = Some (Inl err) \<Longrightarrow> fails h avoid root e"
proof (induction n arbitrary: root e s)
  case 0
  then show ?case by simp
next
  case (Suc n)
  from error_in_child [OF Suc.prems]
  consider "\<not> root \<and> addr e = avoid"
    | a l where "e = TreeRef a l None \<or> e = TreeRef a l (Some avoid)"
    | a l t s1 where "e = TreeRef a l (Some t)" "deepCopy' ord n h avoid False (h t) s1 = Some (Inl err)"
    | x s1 where "x \<in> set (owned e)" "deepCopy' ord n h avoid False x s1 = Some (Inl err)"
    by blast
  then show ?case
  proof cases
    case 1
    then show ?thesis by (simp add: fails.reenter)
  next
    case 2
    then show ?thesis by (auto intro: fails.null fails.target)
  next
    case 3
    from Suc.IH [OF 3(2)] show ?thesis
      unfolding 3(1) by (rule fails.follow)
  next
    case 4
    from 4(1) Suc.IH [OF 4(2)] show ?thesis
      by (rule fails.child)
  qed
qed

lemma fails_not_returned:
  "fails h avoid root e \<Longrightarrow> deepCopy' ord n h avoid root e s \<noteq> Some (Inr (c, s'))"
proof (induction arbitrary: ord n s c s' rule: fails.induct)
  case (reenter root e)
  show ?case
  proof (cases n)
    case 0
    then show ?thesis by simp
  next
    case (Suc m)
    with reenter children_ok [of ord m h avoid root e s c s'] show ?thesis by blast
  qed
next
  case (null root a l)
  show ?case
  proof (cases n)
    case 0
    then show ?thesis by simp
  next
    case (Suc m)
    with children_ok [of ord m h avoid root "TreeRef a l None" s c s'] show ?thesis by blast
  qed
next
  case (target root a l)
  show ?case
  proof (cases n)
    case 0
    then show ?thesis by simp
  next
    case (Suc m)
    with children_ok [of ord m h avoid root "TreeRef a l (Some avoid)" s c s'] show ?thesis by blast
  qed
next
  case (follow t root a l)
  show ?case
  proof (cases n)
    case 0
    then show ?thesis by simp
  next
    case (Suc m)
    with children_ok [of ord m h avoid root "TreeRef a l (Some t)" s c s'] follow.IH [of ord m s c s']
    show ?thesis by blast
  qed
next
  case (child x e root)
  show ?case
  proof (cases n)
    case 0
    then show ?thesis by simp
  next
    case (Suc m)
    show ?thesis
    proof
      assume "deepCopy' ord n h avoid root e s = Some (Inr (c, s'))"
      with Suc children_ok [of ord m h avoid root e s c s'] child.hyps(1)
      obtain s1 c1 s2 where "deepCopy' ord m h avoid False x s1 = Some (Inr (c1, s2))"
        by blast
      with child.IH [of ord m s1 c1 s2] show False by blast
    qed
  qed
qed

lemma deepCopy_cases:
  "deepCopy ord n h e s = None \<longleftrightarrow> deepCopy' ord n h (addr e) True e s = None"
  "deepCopy ord n h e s = Some (None, s1) \<longleftrightarrow> deepCopy' ord n h (addr e) True e s = Some (Inl DeepCopyError) \<and> s1 = s"
  "deepCopy ord n h e s = Some (Some c, s1) \<longleftrightarrow> deepCopy' ord n h (addr e) True e s = Some (Inr (c, s1))"
  by (auto simp: deepCopy_def split: option.splits sum.splits error.splits)

lemma deepCopy_null_iff:
  assumes "deepCopy ord n h T s = Some r"
  shows "(fst r = None \<longleftrightarrow> fails h (addr T) True T) \<and> (fst r = None \<longrightarrow> snd r = s)"
proof (cases "fst r")
  case None
  then have r: "r = (None, snd r)" by (simp add: prod_eq_iff)
  from assms have "deepCopy ord n h T s = Some (None, snd r)"
    using r by simp
  then have "deepCopy' ord n h (addr T) True T s = Some (Inl DeepCopyError)" "snd r = s"
    by (simp_all add: deepCopy_cases)
  with None deepCopy'_fails show ?thesis by blast
next
  case (Some c)
  then have r: "r = (Some c, snd r)" by (simp add: prod_eq_iff)
  from assms have "deepCopy ord n h T s = Some (Some c, snd r)"
    using r by simp
  then have "deepCopy' ord n h (addr T) True T s = Some (Inr (c, snd r))"
    by (simp add: deepCopy_cases)
  with Some fails_not_returned show ?thesis by auto
qed

lemma selfRef_diverges: "deepCopy' ord n loopStore 0 False selfRef s = None"
  by (induction n) (simp_all add: selfRef_def loopStore_def)

lemma halts_ret: "halts (ret x)"
  by (simp add: halts_def)

lemma halts_make_unique: "halts (make_unique mk)"
  by (simp add: halts_def)

lemma halts_throw: "halts (throw e)"
  by (simp add: halts_def)

lemma halts_bindC: "halts m \<Longrightarrow> (\<And>x. halts (f x)) \<Longrightarrow> halts (bindC m f)"
  by (auto simp: halts_def bindC_def split: option.splits sum.splits)

lemma halts_prod: "(\<And>a b. halts (f a b)) \<Longrightarrow> halts (case p of (a, b) \<Rightarrow> f a b)"
  by (cases p) simp

lemma halts_arguments: "halts m1 \<Longrightarrow> halts m2 \<Longrightarrow> halts (arguments ord m1 m2)"
  by (cases ord) (auto simp: arguments_def intro!: halts_bindC halts_ret)

lemma halts_vec: "(\<And>x. x \<in> set xs \<Longrightarrow> halts (cp x)) \<Longrightarrow> halts (deepCopyVec cp xs)"
  by (induction xs) (auto intro!: halts_ret halts_bindC)

lemma halts_block: "(\<And>x. x \<in> set_option b \<Longrightarrow> halts (cp x)) \<Longrightarrow> halts (deepCopyBlock cp b)"
  by (cases b) (auto intro!: halts_ret halts_bindC)

lemma step_halts:
  assumes "\<not> isTreeRef e"
    and "\<And>x. x \<in> set (owned e) \<Longrightarrow> halts (deepCopy' ord n h avoid False x)"
  shows "halts (deepCopy' ord (Suc n) h avoid root e)"
  using assms
  apply (cases e)
  apply (simp_all only: deepCopy'.simps Expr.case)
  apply ((auto intro!: halts_bindC halts_make_unique halts_vec halts_block halts_arguments halts_throw halts_prod)[1])+
  done

lemma uniform_depth:
  assumes "\<forall>x \<in> set xs. \<exists>n. \<forall>m\<ge>n. P x m"
  shows "\<exists>n::nat. \<forall>x \<in> set xs. \<forall>m\<ge>n. P x m"
  using assms
proof (induction xs)
  case Nil
  then show ?case by simp
next
  case (Cons x xs)
  then obtain n1 n2 where "\<forall>m\<ge>n1. P x m" "\<forall>y \<in> set xs. \<forall>m\<ge>n2. P y m"
    by auto
  then have "\<forall>y \<in> set (x # xs). \<forall>m\<ge>max n1 n2. P y m"
    by simp
  then show ?case by blast
qed

lemma finiteTraversal_halts:
  "finiteTraversal h avoid root e \<Longrightarrow> \<exists>n. \<forall>m\<ge>n. \<forall>ord. halts (deepCopy' ord m h avoid root e)"
proof (induction rule: finiteTraversal.induct)
  case (stops root e)
  have "\<forall>m\<ge>1. \<forall>ord. halts (deepCopy' ord m h avoid root e)"
  proof (intro allI impI)
    fix m :: nat and ord
    assume "1 \<le> m"
    then obtain k where "m = Suc k" by (cases m) auto
    with stops show "halts (deepCopy' ord m h avoid root e)"
      by (simp add: halts_throw)
  qed
  then show ?case by blast
next
  case (null root a l)
  have "\<forall>m\<ge>1. \<forall>ord. halts (deepCopy' ord m h avoid root (TreeRef a l None))"
  proof (intro allI impI)
    fix m :: nat and ord
    assume "1 \<le> m"
    then obtain k where "m = Suc k" by (cases m) auto
    then show "halts (deepCopy' ord m h avoid root (TreeRef a l None))"
      by (simp add: halts_throw)
  qed
  then show ?case by blast
next
  case (target root a l)
  have "\<forall>m\<ge>1. \<forall>ord. halts (deepCopy' ord m h avoid root (TreeRef a l (Some avoid)))"
  proof (intro allI impI)
    fix m :: nat and ord
    assume "1 \<le> m"
    then obtain k where "m = Suc k" by (cases m) auto
    then show "halts (deepCopy' ord m h avoid root (TreeRef a l (Some avoid)))"
      by (simp add: halts_throw)
  qed
  then show ?case by blast
next
  case (follow t root a l)
  then obtain n where n: "\<forall>m\<ge>n. \<forall>ord. halts (deepCopy' ord m h avoid False (h t))"
    by blast
  have "\<forall>m\<ge>Suc n. \<forall>ord. halts (deepCopy' ord m h avoid root (TreeRef a l (Some t)))"
  proof (intro allI impI)
    fix m :: nat and ord
    assume "Suc n \<le> m"
    then obtain k where k: "m = Suc k" "n \<le> k" by (cases m) auto
    with n have "halts (deepCopy' ord k h avoid False (h t))" by blast
    then show "halts (deepCopy' ord m h avoid root (TreeRef a l (Some t)))"
      by (simp add: k halts_throw)
  qed
  then show ?case by blast
next
  case (node e root)
  then have "\<forall>x \<in> set (owned e). \<exists>n. \<forall>m\<ge>n. \<forall>ord. halts (deepCopy' ord m h avoid False x)"
    by blast
  from uniform_depth [OF this]
  obtain n where n: "\<forall>x \<in> set (owned e). \<forall>m\<ge>n. \<forall>ord. halts (deepCopy' ord m h avoid False x)"
    by blast
  have "\<forall>m\<ge>Suc n. \<forall>ord. halts (deepCopy' ord m h avoid root e)"
  proof (intro allI impI)
    fix m :: nat and ord
    assume "Suc n \<le> m"
    then obtain k where k: "m = Suc k" "n \<le> k" by (cases m) auto
    show "halts (deepCopy' ord m h avoid root e)"
      unfolding k(1)
    proof (rule step_halts)
      show "\<not> isTreeRef e" by (rule node.hyps(1))
      fix x
      assume "x \<in> set (owned e)"
      with n k(2) show "halts (deepCopy' ord k h avoid False x)" by blast
    qed
  qed
  then show ?case by blast
qed

lemma owned_size: "x \<in> set (owned e) \<Longrightarrow> size x < size e"
  apply (cases e)
  apply (auto simp: less_Suc_eq_le dest!: size_list_estimation' [where f = size and y = "size x", OF _ order_refl] split: option.splits)
  done

lemma owned_set2: "x \<in> set (owned e) \<Longrightarrow> set2_Expr x \<subseteq> set2_Expr e"
  by (cases e) (auto split: option.splits)

lemma noTreeRef_finite: "set2_Expr e = {} \<Longrightarrow> finiteTraversal h avoid root e"
proof (induction "size e" arbitrary: e root rule: less_induct)
  case less
  have nt: "\<not> isTreeRef e"
    using less.prems by (cases e) auto
  show ?case
  proof (rule finiteTraversal.node [OF nt], rule ballI)
    fix x
    assume x: "x \<in> set (owned e)"
    from owned_set2 [OF x] less.prems have "set2_Expr x = {}" by simp
    with owned_size [OF x] show "finiteTraversal h avoid False x"
      by (rule less.hyps)
  qed
qed

lemma deepCopy_returns:
  assumes "finiteTraversal h (addr T) True T"
  shows "\<exists>n. \<forall>m\<ge>n. \<forall>ord s. \<exists>r. deepCopy ord m h T s = Some r"
proof -
  from finiteTraversal_halts [OF assms]
  obtain n where n: "\<forall>m\<ge>n. \<forall>ord. halts (deepCopy' ord m h (addr T) True T)"
    by blast
  have "\<forall>m\<ge>n. \<forall>ord s. \<exists>r. deepCopy ord m h T s = Some r"
  proof (intro allI impI)
    fix m ord s
    assume "n \<le> m"
    with n have "deepCopy' ord m h (addr T) True T s \<noteq> None"
      by (simp add: halts_def)
    then show "\<exists>r. deepCopy ord m h T s = Some r"
      by (cases "deepCopy ord m h T s") (simp_all add: deepCopy_cases)
  qed
  then show ?thesis by blast
qed

lemma deepCopyVec_expand:
  assumes "deepCopyVec cp xs s = Some (Inr (cs, s'))"
    and "\<And>x s c s'. cp x s = Some (Inr (c, s')) \<Longrightarrow> rel_Expr (\<lambda>a b. True) (=) (f x) c"
  shows "list_all2 (rel_Expr (\<lambda>a b. True) (=)) (map f xs) cs"
  using assms(1)
proof (induction xs arbitrary: s cs)
  case Nil
  then show ?case by simp
next
  case (Cons x xs)
  from Cons.prems obtain c s1 cs1 where c: "cp x s = Some (Inr (c, s1))"
    and r: "deepCopyVec cp xs s1 = Some (Inr (cs1, s'))" and cs: "cs = c # cs1"
    by (auto simp: bindC_Inr)
  from assms(2) [OF c] Cons.IH [OF r] show ?case
    unfolding cs by simp
qed

lemma deepCopyBlock_expand:
  assumes "deepCopyBlock cp b s = Some (Inr (b', s'))"
    and "\<And>x s c s'. cp x s = Some (Inr (c, s')) \<Longrightarrow> rel_Expr (\<lambda>a b. True) (=) (f x) c"
  shows "rel_option (rel_Expr (\<lambda>a b. True) (=)) (map_option f b) b'"
proof (cases b)
  case None
  with assms(1) show ?thesis by simp
next
  case (Some x)
  with assms(1) obtain c where "cp x s = Some (Inr (c, s'))" "b' = Some c"
    by (auto simp: bindC_Inr)
  with assms(2) [of x s c s'] Some show ?thesis by simp
qed

lemma deepCopy'_expand:
  "deepCopy' ord n h avoid root e s = Some (Inr (c, s')) \<Longrightarrow>
   rel_Expr (\<lambda>a b. True) (=) (expand n h e) c"
proof (induction n arbitrary: ord root e s c s')
  case 0
  then show ?case by simp
next
  case (Suc n)
  note IH = Suc.IH
  have V: "\<And>ord xs s cs s'. deepCopyVec (deepCopy' ord n h avoid False) xs s = Some (Inr (cs, s'))
      \<Longrightarrow> list_all2 (rel_Expr (\<lambda>a b. True) (=)) (map (expand n h) xs) cs"
    by (erule deepCopyVec_expand) (rule IH)
  have B: "\<And>ord b s b' s'. deepCopyBlock (deepCopy' ord n h avoid False) b s = Some (Inr (b', s'))
      \<Longrightarrow> rel_option (rel_Expr (\<lambda>a b. True) (=)) (map_option (expand n h) b) b'"
    by (erule deepCopyBlock_expand) (rule IH)
  from Suc.prems show ?case
    apply (cases ord; cases e)
    apply (simp_all only: deepCopy'.simps Expr.case arguments_def order.case)
    apply (clarsimp simp: bindC_Inr split: if_splits option.splits, ((drule IH V B)+)?, simp?)+
    done
qed


lemma deepCopy_total:
  assumes "finiteTraversal h (addr T) True T"
  shows "\<exists>n. \<forall>m\<ge>n. \<forall>ord s.
           if fails h (addr T) True T then deepCopy ord m h T s = Some (None, s)
           else (\<exists>c s'. deepCopy ord m h T s = Some (Some c, s'))"
proof -
  from deepCopy_returns [OF assms]
  obtain n where n: "\<forall>m\<ge>n. \<forall>ord s. \<exists>r. deepCopy ord m h T s = Some r"
    by blast
  have "\<forall>m\<ge>n. \<forall>ord s.
           if fails h (addr T) True T then deepCopy ord m h T s = Some (None, s)
           else (\<exists>c s'. deepCopy ord m h T s = Some (Some c, s'))"
  proof (intro allI impI)
    fix m ord s
    assume "n \<le> m"
    with n obtain r where r: "deepCopy ord m h T s = Some r"
      by blast
    note f = deepCopy_null_iff [OF r]
    show "if fails h (addr T) True T then deepCopy ord m h T s = Some (None, s)
          else (\<exists>c s'. deepCopy ord m h T s = Some (Some c, s'))"
    proof (cases "fails h (addr T) True T")
      case True
      with f have "fst r = None" "snd r = s" by simp_all
      then have "r = (None, s)" by (simp add: prod_eq_iff)
      with r True show ?thesis by simp
    next
      case False
      with f obtain c where "fst r = Some c" by auto
      then have "r = (Some c, snd r)" by (simp add: prod_eq_iff)
      with r False show ?thesis by auto
    qed
  qed
  then show ?thesis by blast
qed

text \<open>
  C5, as the code has it. Whenever \<open>deepCopy\<close> returns, at any depth and with either
  order of evaluation, it returns the null pointer if and only if a throw site is
  reachable from the tree: a \<open>TreeRef\<close> whose pointer is null or is the avoid pointer,
  or whose expansion re-enters the avoid node. Nothing but the null pointer is returned
  then, and the allocator is as it was before the call. When the traversal from the tree
  is finite, \<open>deepCopy\<close> does return, within enough depth, from every allocator and
  with either order: the null pointer when a throw site is reachable, as for a tree
  with a \<open>TreeRef\<close> that points back to the root, and a tree when none is. The
  traversal from a tree without \<open>TreeRef\<close> is finite.
\<close>

theorem deepCopy_null_iff_throw_site:
  "(finiteTraversal h (addr T) True T \<longrightarrow>
      (\<exists>n. \<forall>m\<ge>n. \<forall>ord s.
         if fails h (addr T) True T then deepCopy ord m h T s = Some (None, s)
         else (\<exists>c s'. deepCopy ord m h T s = Some (Some c, s'))))
   \<and> (\<forall>ord n s r. deepCopy ord n h T s = Some r \<longrightarrow>
         (fst r = None \<longleftrightarrow> fails h (addr T) True T) \<and> (fst r = None \<longrightarrow> snd r = s))
   \<and> (\<not> hasTreeRef T \<longrightarrow> finiteTraversal h (addr T) True T)"
  using deepCopy_total [of h T] deepCopy_null_iff [of _ _ h T] noTreeRef_finite [of T h "addr T" True]
  by (simp add: hasTreeRef_def)

text \<open>
  The claim as stated fails where the traversal does not come back: a self-pointing
  \<open>TreeRef\<close> that is not the avoid node is expanded again and again, so an array that
  holds a pointer to one, and after it a \<open>TreeRef\<close> with a null pointer, contains a
  throw site and yet \<open>deepCopy\<close> returns nothing, for any depth and either order.
\<close>

theorem throw_site_after_loop_never_returns:
  "fails loopStore 0 True (Array 0 (0, 0, 0) [TreeRef 1 (0, 0, 0) (Some 2), TreeRef 3 (0, 0, 0) None])
   \<and> (\<forall>ord n s. deepCopy ord n loopStore (Array 0 (0, 0, 0) [TreeRef 1 (0, 0, 0) (Some 2), TreeRef 3 (0, 0, 0) None]) s = None)"
proof
  have "fails loopStore 0 False (TreeRef 3 (0, 0, 0) None)"
    by (rule fails.null)
  then show "fails loopStore 0 True (Array 0 (0, 0, 0) [TreeRef 1 (0, 0, 0) (Some 2), TreeRef 3 (0, 0, 0) None])"
    by (rule fails.child [rotated]) simp
  show "\<forall>ord n s. deepCopy ord n loopStore (Array 0 (0, 0, 0) [TreeRef 1 (0, 0, 0) (Some 2), TreeRef 3 (0, 0, 0) None]) s = None"
  proof (intro allI)
    fix ord n s
    show "deepCopy ord n loopStore (Array 0 (0, 0, 0) [TreeRef 1 (0, 0, 0) (Some 2), TreeRef 3 (0, 0, 0) None]) s = None"
    proof (cases n)
      case 0
      then show ?thesis by (simp add: deepCopy_def)
    next
      case (Suc m)
      have "deepCopy' ord m loopStore 0 False (TreeRef 1 (0, 0, 0) (Some 2)) s = None"
      proof (cases m)
        case 0
        then show ?thesis by simp
      next
        case (Suc k)
        then show ?thesis
          using selfRef_diverges [of ord k s] by (simp add: loopStore_def)
      qed
      then show ?thesis
        by (simp add: Suc deepCopy_def bindC_def)
    qed
  qed
qed

text \<open>
  Where a throw site and such a loop are arguments of one call, the order decides: an
  \<open>If\<close> whose condition is a null \<open>TreeRef\<close> and whose else branch leads to the
  loop is not copyable when the arguments are evaluated from the first on, and its copy
  does not return when they are evaluated from the last on.
\<close>

lemma order_decides:
  "deepCopy LeftToRight (Suc (Suc n)) loopStore
     (If_tree 0 (0, 0, 0) (TreeRef 1 (0, 0, 0) None) (EmptyTree 4 (0, 0, 0)) (TreeRef 3 (0, 0, 0) (Some 2))) s
     = Some (None, s)"
  "deepCopy RightToLeft n loopStore
     (If_tree 0 (0, 0, 0) (TreeRef 1 (0, 0, 0) None) (EmptyTree 4 (0, 0, 0)) (TreeRef 3 (0, 0, 0) (Some 2))) s
     = None"
proof -
  show "deepCopy LeftToRight (Suc (Suc n)) loopStore
     (If_tree 0 (0, 0, 0) (TreeRef 1 (0, 0, 0) None) (EmptyTree 4 (0, 0, 0)) (TreeRef 3 (0, 0, 0) (Some 2))) s
     = Some (None, s)"
    by (simp add: deepCopy_def arguments_def bindC_def throw_def)
  have l: "deepCopy' RightToLeft m loopStore 0 False (TreeRef 3 (0, 0, 0) (Some 2)) s = None" for m
  proof (cases m)
    case 0
    then show ?thesis by simp
  next
    case (Suc k)
    then show ?thesis
      using selfRef_diverges [of RightToLeft k s] by (simp add: loopStore_def)
  qed
  show "deepCopy RightToLeft n loopStore
     (If_tree 0 (0, 0, 0) (TreeRef 1 (0, 0, 0) None) (EmptyTree 4 (0, 0, 0)) (TreeRef 3 (0, 0, 0) (Some 2))) s
     = None"
  proof (cases n)
    case 0
    then show ?thesis by (simp add: deepCopy_def)
  next
    case (Suc m)
    then show ?thesis
      by (simp add: deepCopy_def arguments_def bindC_def l)
  qed
qed

lemma top_node_kept:
  assumes "deepCopy' ord n h avoid root T s = Some (Inr (c, s'))"
  shows "(\<forall>a l symbol nm ancestors rhs k. T = ClassDef a l symbol nm ancestors rhs k
            \<longrightarrow> (\<exists>a' nm' ancestors' rhs'. c = ClassDef a' l symbol nm' ancestors' rhs' k))
       \<and> (\<forall>a l symbol nm args rhs isSelf. T = MethodDef a l symbol nm args rhs isSelf
            \<longrightarrow> (\<exists>a' args' rhs'. c = MethodDef a' l symbol nm args' rhs' isSelf))
       \<and> (\<forall>a l args body symbol. T = Block a l args body symbol
            \<longrightarrow> (\<exists>a' args' body'. c = Block a' l args' body' symbol))"
proof (cases n)
  case 0
  with assms show ?thesis by simp
next
  case (Suc m)
  with assms show ?thesis
    by (cases ord) (auto simp: bindC_Inr arguments_def split: if_splits)
qed

lemma deepCopy_copy_facts:
  assumes "deepCopy ord n h T s = Some (Some c, s')"
  shows "(\<forall>a \<in> nodes c. s \<le> a \<and> a < s')
       \<and> ((\<forall>a \<in> nodes T. a < s) \<longrightarrow> nodes c \<inter> nodes T = {})
       \<and> \<not> hasTreeRef c
       \<and> same (expand n h T) c
       \<and> (\<not> hasTreeRef T \<longrightarrow> same T c)
       \<and> (\<forall>a l symbol nm ancestors rhs k. T = ClassDef a l symbol nm ancestors rhs k
            \<longrightarrow> (\<exists>a' nm' ancestors' rhs'. c = ClassDef a' l symbol nm' ancestors' rhs' k))
       \<and> (\<forall>a l symbol nm args rhs isSelf. T = MethodDef a l symbol nm args rhs isSelf
            \<longrightarrow> (\<exists>a' args' rhs'. c = MethodDef a' l symbol nm args' rhs' isSelf))
       \<and> (\<forall>a l args body symbol. T = Block a l args body symbol
            \<longrightarrow> (\<exists>a' args' body'. c = Block a' l args' body' symbol))
       \<and> (\<forall>a l t. T = TreeRef a l (Some t)
            \<longrightarrow> (\<exists>m. n = Suc m \<and> deepCopy' ord m h a False (h t) s = Some (Inr (c, s'))))"
proof -
  from assms have d: "deepCopy' ord n h (addr T) True T s = Some (Inr (c, s'))"
    by (simp add: deepCopy_cases)
  from deepCopy'_fresh [OF d] have f: "\<forall>a \<in> nodes c. s \<le> a \<and> a < s'" and t: "\<not> hasTreeRef c"
    by (simp_all add: fresh_def nodes_def hasTreeRef_def)
  from f have "(\<forall>a \<in> nodes T. a < s) \<longrightarrow> nodes c \<inter> nodes T = {}"
    by fastforce
  moreover have "same (expand n h T) c"
    using deepCopy'_expand [OF d] by (simp add: same_def)
  moreover have "\<not> hasTreeRef T \<longrightarrow> same T c"
    using deepCopy'_rel [OF d] by (simp add: hasTreeRef_def same_def)
  moreover have "\<forall>a l t. T = TreeRef a l (Some t)
            \<longrightarrow> (\<exists>m. n = Suc m \<and> deepCopy' ord m h a False (h t) s = Some (Inr (c, s')))"
  proof (intro allI impI)
    fix a l t
    assume T: "T = TreeRef a l (Some t)"
    from d T obtain m where m: "n = Suc m"
      by (cases n) auto
    from d have "deepCopy' ord (Suc m) h a True (TreeRef a l (Some t)) s = Some (Inr (c, s'))"
      by (simp only: T m Expr.sel)
    from children_ok [OF this] have "deepCopy' ord m h a False (h t) s = Some (Inr (c, s'))"
      by blast
    with m show "\<exists>m. n = Suc m \<and> deepCopy' ord m h a False (h t) s = Some (Inr (c, s'))"
      by blast
  qed
  ultimately show ?thesis
    using f t top_node_kept [OF d] by blast
qed

text \<open>
  C6, as the code has it. A successful \<open>deepCopy\<close> returns a tree all of whose nodes
  are newly allocated, so that it shares no node with a tree allocated before. The copy
  is structurally equal to the expansion of the tree, where every \<open>TreeRef\<close> is
  replaced by the expansion of its target: the same classes in the same places, with
  locations, symbols, names, literal values and kinds equal throughout, among them the
  kind of a \<open>ClassDef\<close>, the \<open>isSelf\<close> flag of a \<open>MethodDef\<close> and the symbol of
  a \<open>Block\<close>. The copy holds no \<open>TreeRef\<close>; when the tree holds none either, the
  copy is structurally equal to the tree itself. The copy of a \<open>TreeRef\<close> at the root
  is what the copy of its target returns, with the \<open>TreeRef\<close> as the avoid node.
\<close>

theorem deepCopy_fresh_and_same:
  assumes "deepCopy ord n h T s = Some (Some c, s')"
  shows "(\<forall>a \<in> nodes c. s \<le> a \<and> a < s')
       \<and> ((\<forall>a \<in> nodes T. a < s) \<longrightarrow> nodes c \<inter> nodes T = {})
       \<and> \<not> hasTreeRef c
       \<and> same (expand n h T) c
       \<and> (\<not> hasTreeRef T \<longrightarrow> same T c)
       \<and> (\<forall>a l symbol nm ancestors rhs k. T = ClassDef a l symbol nm ancestors rhs k
            \<longrightarrow> (\<exists>a' nm' ancestors' rhs'. c = ClassDef a' l symbol nm' ancestors' rhs' k))
       \<and> (\<forall>a l symbol nm args rhs isSelf. T = MethodDef a l symbol nm args rhs isSelf
            \<longrightarrow> (\<exists>a' args' rhs'. c = MethodDef a' l symbol nm args' rhs' isSelf))
       \<and> (\<forall>a l args body symbol. T = Block a l args body symbol
            \<longrightarrow> (\<exists>a' args' body'. c = Block a' l args' body' symbol))
       \<and> (\<forall>a l t. T = TreeRef a l (Some t)
            \<longrightarrow> (\<exists>m. n = Suc m \<and> deepCopy' ord m h a False (h t) s = Some (Inr (c, s'))))"
  using assms by (rule deepCopy_copy_facts)

lemma aSig_copy:
  "deepCopy ord 3 noStore aSig 100
     = Some (Some (Send 102 aLoc (Send 101 aLoc (Self 100 aLoc 0) 4 [] None) 5 [] None), 103)"
  by (cases ord)
    (simp_all add: deepCopy_def aSig_def numeral_3_eq_3 arguments_def bindC_def make_unique_def ret_def)

text \<open>An array of a literal and a \<open>TreeRef\<close>, with the pointer given.\<close>

lemma anArray_copy:
  "deepCopy RightToLeft 3 noStore (Array 0 aLoc [Literal_tree 1 aLoc 3, TreeRef 2 aLoc (Some 7)]) 100
     = Some (Some (Array 102 aLoc [Literal_tree 100 aLoc 3, EmptyTree 101 aLoc]), 103)"
  by (simp add: deepCopy_def numeral_3_eq_3 bindC_def make_unique_def ret_def noStore_def)

lemma anArray_expanded:
  "expand 3 noStore (Array 0 aLoc [Literal_tree 1 aLoc 3, TreeRef 2 aLoc (Some 7)])
     = Array 0 aLoc [Literal_tree 1 aLoc 3, EmptyTree 7 aLoc]"
  by (simp add: numeral_3_eq_3 noStore_def)

lemma aCall_copy:
  "deepCopy RightToLeft 2 noStore aCall 100
     = Some (Some (MethodDef 102 aLoc 0 3 [UnresolvedIdent 101 aLoc 0 6] (EmptyTree 100 aLoc) False), 103)"
  by (simp add: deepCopy_def aCall_def numeral_2_eq_2 arguments_def bindC_def make_unique_def ret_def)

lemma aTreeRef_copy:
  "deepCopy LeftToRight 2 noStore (TreeRef 0 aLoc (Some 1)) 5 = Some (Some (EmptyTree 5 aLoc), 6)"
  by (simp add: deepCopy_def numeral_2_eq_2 noStore_def make_unique_def)

theorem deepCopy_fresh_and_same_witness:
  "deepCopy RightToLeft 3 noStore (Array 0 aLoc [Literal_tree 1 aLoc 3, TreeRef 2 aLoc (Some 7)]) 100
     = Some (Some (Array 102 aLoc [Literal_tree 100 aLoc 3, EmptyTree 101 aLoc]), 103)
   \<and> same (Array 0 aLoc [Literal_tree 1 aLoc 3, EmptyTree 7 aLoc])
          (Array 102 aLoc [Literal_tree 100 aLoc 3, EmptyTree 101 aLoc])
   \<and> nodes (Array 102 aLoc [Literal_tree 100 aLoc 3, EmptyTree 101 aLoc])
        \<inter> nodes (Array 0 aLoc [Literal_tree 1 aLoc 3, TreeRef 2 aLoc (Some 7)]) = {}
   \<and> \<not> hasTreeRef aSig
   \<and> same aSig (Send 102 aLoc (Send 101 aLoc (Self 100 aLoc 0) 4 [] None) 5 [] None)
   \<and> deepCopy RightToLeft 2 noStore aCall 100
       = Some (Some (MethodDef 102 aLoc 0 3 [UnresolvedIdent 101 aLoc 0 6] (EmptyTree 100 aLoc) False), 103)
   \<and> same aCall (MethodDef 102 aLoc 0 3 [UnresolvedIdent 101 aLoc 0 6] (EmptyTree 100 aLoc) False)
   \<and> deepCopy LeftToRight 2 noStore (TreeRef 0 aLoc (Some 1)) 5 = Some (Some (EmptyTree 5 aLoc), 6)
   \<and> deepCopy' LeftToRight 1 noStore 0 False (noStore 1) 5 = Some (Inr (EmptyTree 5 aLoc, 6))"
proof -
  let ?T = "Array 0 aLoc [Literal_tree 1 aLoc 3, TreeRef 2 aLoc (Some 7)]"
  let ?c = "Array 102 aLoc [Literal_tree 100 aLoc 3, EmptyTree 101 aLoc]"
  let ?d = "Send 102 aLoc (Send 101 aLoc (Self 100 aLoc 0) 4 [] None) 5 [] None"
  note A = deepCopy_fresh_and_same [OF anArray_copy]
  note S = deepCopy_fresh_and_same [OF aSig_copy [of LeftToRight]]
  have n: "\<forall>a \<in> nodes ?T. a < 100"
    by (simp add: nodes_def)
  have t: "\<not> hasTreeRef aSig"
    by (simp add: hasTreeRef_def aSig_def)
  have "same (expand 3 noStore ?T) ?c"
    using A by (elim conjE)
  then have 1: "same (Array 0 aLoc [Literal_tree 1 aLoc 3, EmptyTree 7 aLoc]) ?c"
    unfolding anArray_expanded .
  have "(\<forall>a \<in> nodes ?T. a < 100) \<longrightarrow> nodes ?c \<inter> nodes ?T = {}"
    using A by (elim conjE)
  with n have 2: "nodes ?c \<inter> nodes ?T = {}" by simp
  have "\<not> hasTreeRef aSig \<longrightarrow> same aSig ?d"
    using S by (elim conjE)
  with t have 3: "same aSig ?d" by simp
  have "\<not> hasTreeRef aCall"
    by (simp add: hasTreeRef_def aCall_def)
  moreover have "\<not> hasTreeRef aCall \<longrightarrow>
      same aCall (MethodDef 102 aLoc 0 3 [UnresolvedIdent 101 aLoc 0 6] (EmptyTree 100 aLoc) False)"
    using deepCopy_fresh_and_same [OF aCall_copy] by (elim conjE)
  ultimately have 4: "same aCall (MethodDef 102 aLoc 0 3 [UnresolvedIdent 101 aLoc 0 6] (EmptyTree 100 aLoc) False)"
    by simp
  have "\<forall>a l t. TreeRef 0 aLoc (Some 1) = TreeRef a l (Some t)
          \<longrightarrow> (\<exists>m. 2 = Suc m \<and> deepCopy' LeftToRight m noStore a False (noStore t) 5
                           = Some (Inr (EmptyTree 5 aLoc, 6)))"
    using deepCopy_fresh_and_same [OF aTreeRef_copy] by (elim conjE)
  then obtain m where m: "2 = Suc m"
    and d: "deepCopy' LeftToRight m noStore 0 False (noStore 1) 5 = Some (Inr (EmptyTree 5 aLoc, 6))"
    by blast
  from m have "m = 1" by simp
  with d have 5: "deepCopy' LeftToRight 1 noStore 0 False (noStore 1) 5 = Some (Inr (EmptyTree 5 aLoc, 6))"
    by (simp only:)
  from anArray_copy 1 2 t 3 aCall_copy 4 aTreeRef_copy 5 show ?thesis
    by blast
qed

text \<open>
  The claim as stated fails on a tree with a \<open>TreeRef\<close>: the copy of a \<open>TreeRef\<close>
  to an \<open>EmptyTree\<close> is an \<open>EmptyTree\<close> node, which is not structurally equal to
  the \<open>TreeRef\<close>.
\<close>

theorem copy_of_TreeRef_is_not_same:
  "deepCopy LeftToRight 2 noStore (TreeRef 0 aLoc (Some 1)) 5 = Some (Some (EmptyTree 5 aLoc), 6)
   \<and> \<not> same (TreeRef 0 aLoc (Some 1)) (EmptyTree 5 aLoc)"
  by (simp add: deepCopy_def numeral_2_eq_2 noStore_def make_unique_def same_def)

lemma anArray_finite:
  "finiteTraversal noStore 0 True (Array 0 aLoc [Literal_tree 1 aLoc 3, TreeRef 2 aLoc tree])"
proof (rule finiteTraversal.node)
  show "\<not> isTreeRef (Array 0 aLoc [Literal_tree 1 aLoc 3, TreeRef 2 aLoc tree])"
    by simp
  have "finiteTraversal noStore 0 False (Literal_tree 1 aLoc 3)"
    by (rule noTreeRef_finite) simp
  moreover have "finiteTraversal noStore 0 False (TreeRef 2 aLoc tree)"
  proof (cases tree)
    case None
    then show ?thesis by (simp add: finiteTraversal.null)
  next
    case (Some t)
    have "finiteTraversal noStore 0 False (noStore t)"
      by (rule noTreeRef_finite) (simp add: noStore_def)
    then show ?thesis
      unfolding Some by (rule finiteTraversal.follow)
  qed
  ultimately show "\<forall>x \<in> set (owned (Array 0 aLoc [Literal_tree 1 aLoc 3, TreeRef 2 aLoc tree])).
      finiteTraversal noStore 0 False x"
    by simp
qed

theorem deepCopy_null_iff_throw_site_witness:
  "finiteTraversal noStore 0 True (Array 0 aLoc [Literal_tree 1 aLoc 3, TreeRef 2 aLoc (Some 0)])
   \<and> fails noStore 0 True (Array 0 aLoc [Literal_tree 1 aLoc 3, TreeRef 2 aLoc (Some 0)])
   \<and> (\<exists>n. \<forall>m\<ge>n. \<forall>ord s.
         deepCopy ord m noStore (Array 0 aLoc [Literal_tree 1 aLoc 3, TreeRef 2 aLoc (Some 0)]) s = Some (None, s))
   \<and> finiteTraversal noStore 0 True (Array 0 aLoc [Literal_tree 1 aLoc 3, TreeRef 2 aLoc None])
   \<and> fails noStore 0 True (Array 0 aLoc [Literal_tree 1 aLoc 3, TreeRef 2 aLoc None])
   \<and> (\<exists>n. \<forall>m\<ge>n. \<forall>ord s.
         deepCopy ord m noStore (Array 0 aLoc [Literal_tree 1 aLoc 3, TreeRef 2 aLoc None]) s = Some (None, s))
   \<and> finiteTraversal noStore 0 True (Array 0 aLoc [Literal_tree 1 aLoc 3, TreeRef 2 aLoc (Some 7)])
   \<and> \<not> fails noStore 0 True (Array 0 aLoc [Literal_tree 1 aLoc 3, TreeRef 2 aLoc (Some 7)])
   \<and> (\<exists>n. \<forall>m\<ge>n. \<forall>ord s. \<exists>c s'.
         deepCopy ord m noStore (Array 0 aLoc [Literal_tree 1 aLoc 3, TreeRef 2 aLoc (Some 7)]) s = Some (Some c, s'))
   \<and> \<not> hasTreeRef aSig \<and> finiteTraversal noStore 10 True aSig"
proof -
  let ?R = "Array 0 aLoc [Literal_tree 1 aLoc 3, TreeRef 2 aLoc (Some 0)]"
  let ?N = "Array 0 aLoc [Literal_tree 1 aLoc 3, TreeRef 2 aLoc None]"
  let ?T = "Array 0 aLoc [Literal_tree 1 aLoc 3, TreeRef 2 aLoc (Some 7)]"
  note R = deepCopy_null_iff_throw_site [of noStore ?R]
  note N = deepCopy_null_iff_throw_site [of noStore ?N]
  note T = deepCopy_null_iff_throw_site [of noStore ?T]
  have fR: "finiteTraversal noStore 0 True ?R" and fN: "finiteTraversal noStore 0 True ?N"
    and fT: "finiteTraversal noStore 0 True ?T"
    by (rule anArray_finite)+
  have "fails noStore 0 False (TreeRef 2 aLoc (Some 0))"
    by (rule fails.target)
  then have 1: "fails noStore 0 True ?R"
    by (rule fails.child [rotated]) simp
  from R fR 1 have 2: "\<exists>n. \<forall>m\<ge>n. \<forall>ord s. deepCopy ord m noStore ?R s = Some (None, s)"
    by simp
  have "fails noStore 0 False (TreeRef 2 aLoc None)"
    by (rule fails.null)
  then have 3: "fails noStore 0 True ?N"
    by (rule fails.child [rotated]) simp
  from N fN 3 have 4: "\<exists>n. \<forall>m\<ge>n. \<forall>ord s. deepCopy ord m noStore ?N s = Some (None, s)"
    by simp
  from T anArray_copy have 5: "\<not> fails noStore 0 True ?T"
    by fastforce
  from T fT 5 have 6: "\<exists>n. \<forall>m\<ge>n. \<forall>ord s. \<exists>c s'. deepCopy ord m noStore ?T s = Some (Some c, s')"
    by simp
  have 7: "\<not> hasTreeRef aSig"
    by (simp add: hasTreeRef_def aSig_def)
  with deepCopy_null_iff_throw_site [of noStore aSig] have 8: "finiteTraversal noStore 10 True aSig"
    by (simp add: aSig_def)
  from fR 1 2 fN 3 4 fT 5 6 7 8 show ?thesis
    by blast
qed

section \<open>Properties of the slow path\<close>








section \<open>Properties of the Command rewriter\<close>

lemma isMethodNamed_MethodDef:
  "isMethodNamed c e \<Longrightarrow> \<exists>a l symbol args rhs isSelf. e = MethodDef a l symbol c args rhs isSelf"
  by (cases e) auto

lemma isSend_Send: "isSend e \<Longrightarrow> \<exists>a l recv fn args block. e = Send a l recv fn args block"
  by (cases e) auto

lemma looksLikeSig_Send:
  "looksLikeSig e \<Longrightarrow> \<exists>a l ra rl recv rfn rargs rblock fn args block.
      e = Send a l (Send ra rl recv rfn rargs rblock) fn args block"
  by (cases e) (auto dest: isSend_Send)

lemma findCall_Some:
  "findCall c xs = Some i \<Longrightarrow> i < length xs \<and> isMethodNamed c (xs ! i)"
proof (induction xs arbitrary: i)
  case Nil
  then show ?case by simp
next
  case (Cons x xs)
  then show ?case by (auto split: if_splits)
qed

lemma findCall_prefix:
  "findCall c xs = Some i \<Longrightarrow> findCall c (take (Suc i) xs @ ys) = Some i"
proof (induction xs arbitrary: i)
  case Nil
  then show ?case by simp
next
  case (Cons x xs)
  then show ?case by (auto split: if_splits)
qed

lemma isCommand_ClassDef: "isCommand ctx C \<Longrightarrow> \<exists>a l symbol nm ancestors rhs k. C = ClassDef a l symbol nm ancestors rhs k"
  by (cases C) auto

lemma patchDSL_not_ClassDef: "\<not> isCommand ctx C \<Longrightarrow> patchDSL ord n h ctx C s = Some (Inr (C, s))"
  by (cases C) simp_all

lemma patchDSL_unchanged:
  assumes "\<not> applies ctx C"
  shows "patchDSL ord n h ctx C s = Some (Inr (C, s))"
proof (cases "isCommand ctx C")
  case False
  then show ?thesis by (rule patchDSL_not_ClassDef)
next
  case True
  then obtain a l symbol nm ancestors rhs k where C: "C = ClassDef a l symbol nm ancestors rhs k"
    by (blast dest: isCommand_ClassDef)
  from assms True show ?thesis
    unfolding C by (auto simp: applies_def split: option.splits)
qed

lemma patchDSL_applied:
  assumes "applies ctx (ClassDef a l symbol nm ancestors rhs k)"
  shows "\<exists>i. findCall (call_name ctx) rhs = Some i \<and> 0 < i \<and> looksLikeSig (rhs ! (i - 1)) \<and>
     patchDSL ord n h ctx (ClassDef a l symbol nm ancestors rhs k) s =
       (case insertSelfCall ord n h ctx rhs i (rhs ! i) s of
          None \<Rightarrow> None
        | Some (Inl e) \<Rightarrow> Some (Inl e)
        | Some (Inr (rhs', s')) \<Rightarrow> Some (Inr (ClassDef a l symbol nm ancestors rhs' k, s')))"
proof -
  from assms obtain i where i: "findCall (call_name ctx) rhs = Some i" "0 < i" "looksLikeSig (rhs ! (i - 1))"
    and c: "isCommand ctx (ClassDef a l symbol nm ancestors rhs k)"
    by (auto simp: applies_def)
  have "patchDSL ord n h ctx (ClassDef a l symbol nm ancestors rhs k) s =
       (case insertSelfCall ord n h ctx rhs i (rhs ! i) s of
          None \<Rightarrow> None
        | Some (Inl e) \<Rightarrow> Some (Inl e)
        | Some (Inr (rhs', s')) \<Rightarrow> Some (Inr (ClassDef a l symbol nm ancestors rhs' k, s')))"
    using i c by (simp del: isCommand.simps insertSelfCall.simps)
  with i show ?thesis by blast
qed

lemma insertSelfCall_Inr:
  assumes "insertSelfCall ord n h ctx rhs i (MethodDef ca cl csymbol cname cargs cbody cself) s = Some (Inr (rhs', s'))"
  shows "\<exists>newArgs s1 body s2 args' sig'.
           copyArgs ord n h cargs s = Some (newArgs, s1) \<and> those newArgs = Some args'
         \<and> MK_Untyped ctx cl s1 = (body, s2)
         \<and> deepCopy ord n h (rhs ! (i - 1)) (Suc s2) = Some (Some sig', s')
         \<and> rhs' = take (Suc i) rhs @ [sig', MethodDef s2 cl (MK_Method_symbol ctx) cname args' body True]
                    @ drop (Suc i) rhs"
  using assms
  by (auto split: Option.bind_splits prod.splits option.splits)





text \<open>
  C8. The rewriter returns the class as it is, and builds nothing, when the shape
  predicate fails, when the body has no method named \<open>call\<close>, when the first such
  method is the first statement, or when the statement before it is not a \<open>Send\<close>
  whose receiver is a \<open>Send\<close>.
\<close>

theorem patchDSL_no_change:
  assumes "\<not> isCommand ctx C
         \<or> findCall (call_name ctx) (statements C) = None
         \<or> findCall (call_name ctx) (statements C) = Some 0
         \<or> (\<exists>i. findCall (call_name ctx) (statements C) = Some i \<and> \<not> looksLikeSig (statements C ! (i - 1)))"
  shows "patchDSL ord n h ctx C s = Some (Inr (C, s))"
proof -
  from assms have "\<not> applies ctx C"
    by (auto simp: applies_def)
  then show ?thesis
    by (rule patchDSL_unchanged)
qed


theorem patchDSL_no_change_witness:
  "patchDSL RightToLeft 5 noStore aContext (aCommand [aCall, aSig]) 100 = Some (Inr (aCommand [aCall, aSig], 100))
   \<and> patchDSL RightToLeft 5 noStore aContext (aCommand [aSig]) 100 = Some (Inr (aCommand [aSig], 100))
   \<and> patchDSL RightToLeft 5 noStore aContext (aCommand [EmptyTree 9 aLoc, aCall]) 100
       = Some (Inr (aCommand [EmptyTree 9 aLoc, aCall], 100))
   \<and> patchDSL RightToLeft 5 noStore aContext (ClassDef 1 aLoc 0 (EmptyTree 2 aLoc) [] [aSig, aCall] Class) 100
       = Some (Inr (ClassDef 1 aLoc 0 (EmptyTree 2 aLoc) [] [aSig, aCall] Class, 100))"
proof -
  have 1: "findCall (call_name aContext) (statements (aCommand [aCall, aSig])) = Some 0"
    by (simp add: aCommand_def aCall_def aContext_def)
  have 2: "findCall (call_name aContext) (statements (aCommand [aSig])) = None"
    by (simp add: aCommand_def aSig_def aContext_def)
  have 3: "\<exists>i. findCall (call_name aContext) (statements (aCommand [EmptyTree 9 aLoc, aCall])) = Some i
             \<and> \<not> looksLikeSig (statements (aCommand [EmptyTree 9 aLoc, aCall]) ! (i - 1))"
    by (simp add: aCommand_def aCall_def aContext_def)
  have 4: "\<not> isCommand aContext (ClassDef 1 aLoc 0 (EmptyTree 2 aLoc) [] [aSig, aCall] Class)"
    by simp
  show ?thesis
    using patchDSL_no_change [of aContext "aCommand [aCall, aSig]" RightToLeft 5 noStore 100] 1
      patchDSL_no_change [of aContext "aCommand [aSig]" RightToLeft 5 noStore 100] 2
      patchDSL_no_change [of aContext "aCommand [EmptyTree 9 aLoc, aCall]" RightToLeft 5 noStore 100] 3
      patchDSL_no_change [of aContext "ClassDef 1 aLoc 0 (EmptyTree 2 aLoc) [] [aSig, aCall] Class" RightToLeft 5 noStore 100] 4
    by blast
qed


lemma aCommand_patched:
  "patchDSL RightToLeft 5 noStore aContext (aCommand [aSig, aCall]) 100
     = Some (Inr (aCommand
         [aSig, aCall,
          Send 106 aLoc (Send 105 aLoc (Self 104 aLoc 0) 4 [] None) 5 [] None,
          MethodDef 103 aLoc 9 3 [UnresolvedIdent 100 aLoc 0 6]
            (Send 102 aLoc (Ident 101 aLoc 7) 8 [] None) True], 107))"
  by code_simp

lemma insertSelfCall_length:
  assumes "insertSelfCall ord n h ctx rhs i (MethodDef ca cl csymbol cname cargs cbody cself) s = Some (Inr (rhs', s'))"
    and "i < length rhs"
  shows "length rhs' = length rhs + 2 \<and> take (Suc i) rhs' = take (Suc i) rhs"
proof -
  from insertSelfCall_Inr [OF assms(1)] obtain x y where
    "rhs' = take (Suc i) rhs @ [x, y] @ drop (Suc i) rhs"
    by blast
  with assms(2) show ?thesis by simp
qed

lemma patchDSL_applied_result:
  assumes "applies ctx (ClassDef a l symbol nm ancestors rhs k)"
    and "patchDSL ord n h ctx (ClassDef a l symbol nm ancestors rhs k) s = Some (Inr (C1, s1))"
  shows "\<exists>rhs1. C1 = ClassDef a l symbol nm ancestors rhs1 k \<and> length rhs1 = length rhs + 2
           \<and> applies ctx (ClassDef a l symbol nm ancestors rhs1 k)"
proof -
  from patchDSL_applied [OF assms(1), of ord n h s] obtain i where
    i: "findCall (call_name ctx) rhs = Some i" "0 < i" "looksLikeSig (rhs ! (i - 1))"
    and p: "patchDSL ord n h ctx (ClassDef a l symbol nm ancestors rhs k) s =
       (case insertSelfCall ord n h ctx rhs i (rhs ! i) s of
          None \<Rightarrow> None
        | Some (Inl e) \<Rightarrow> Some (Inl e)
        | Some (Inr (rhs', s')) \<Rightarrow> Some (Inr (ClassDef a l symbol nm ancestors rhs' k, s')))"
    by blast
  from findCall_Some [OF i(1)] have len: "i < length rhs" and named: "isMethodNamed (call_name ctx) (rhs ! i)"
    by simp_all
  from named obtain ca cl csymbol cargs cbody cself where
    m: "rhs ! i = MethodDef ca cl csymbol (call_name ctx) cargs cbody cself"
    by (blast dest: isMethodNamed_MethodDef)
  from assms(2) p obtain rhs1 where
    ins: "insertSelfCall ord n h ctx rhs i (rhs ! i) s = Some (Inr (rhs1, s1))"
    and C1: "C1 = ClassDef a l symbol nm ancestors rhs1 k"
    by (auto split: option.splits sum.splits)
  from insertSelfCall_length [OF ins [unfolded m] len]
  have l: "length rhs1 = length rhs + 2" and tk: "take (Suc i) rhs1 = take (Suc i) rhs"
    by simp_all
  from insertSelfCall_Inr [OF ins [unfolded m]] obtain x y where
    r1: "rhs1 = take (Suc i) rhs @ [x, y] @ drop (Suc i) rhs"
    by blast
  have f1: "findCall (call_name ctx) rhs1 = Some i"
    unfolding r1 using i(1) by (rule findCall_prefix)
  have "rhs1 ! (i - 1) = take (Suc i) rhs1 ! (i - 1)"
    by simp
  also have "\<dots> = rhs ! (i - 1)"
    unfolding tk by simp
  finally have "rhs1 ! (i - 1) = rhs ! (i - 1)" .
  with i(3) have s1: "looksLikeSig (rhs1 ! (i - 1))"
    by simp
  from assms(1) have "isCommand ctx (ClassDef a l symbol nm ancestors rhs k)"
    by (simp add: applies_def del: isCommand.simps)
  then have "isCommand ctx (ClassDef a l symbol nm ancestors rhs1 k)"
    by simp
  with f1 i(2) s1 have "applies ctx (ClassDef a l symbol nm ancestors rhs1 k)"
    by (simp add: applies_def del: isCommand.simps)
  with C1 l show ?thesis by blast
qed

text \<open>
  C1, as the code has it. The rewriter is idempotent exactly on the classes that it
  leaves unchanged. Where it inserts, the scan of a second application stops at the
  same \<open>call\<close>, finds the same signature before it and inserts again: each
  application that returns makes the body two statements longer.
\<close>

theorem patchDSL_twice:
  assumes "patchDSL ord n h ctx C s = Some (Inr (C1, s1))"
    and "patchDSL ord' n' h' ctx C1 s1' = Some (Inr (C2, s2))"
  shows "(C2 = C1 \<longleftrightarrow> C1 = C)
       \<and> (C1 \<noteq> C \<longrightarrow> length (statements C1) = length (statements C) + 2
                       \<and> length (statements C2) = length (statements C1) + 2)"
proof (cases "applies ctx C")
  case False
  from patchDSL_unchanged [OF False, of ord n h s] assms(1) have 1: "C1 = C"
    by simp
  with False have "\<not> applies ctx C1" by simp
  from patchDSL_unchanged [OF this, of ord' n' h' s1'] assms(2) have "C2 = C1"
    by simp
  with 1 show ?thesis by simp
next
  case True
  then obtain a l symbol nm ancestors rhs k where C: "C = ClassDef a l symbol nm ancestors rhs k"
    by (auto simp: applies_def dest: isCommand_ClassDef)
  from patchDSL_applied_result [OF True [unfolded C] assms(1) [unfolded C]] obtain rhs1 where
    C1: "C1 = ClassDef a l symbol nm ancestors rhs1 k" and l1: "length rhs1 = length rhs + 2"
    and a1: "applies ctx (ClassDef a l symbol nm ancestors rhs1 k)"
    by blast
  from patchDSL_applied_result [OF a1 assms(2) [unfolded C1]] obtain rhs2 where
    C2: "C2 = ClassDef a l symbol nm ancestors rhs2 k" and l2: "length rhs2 = length rhs1 + 2"
    by blast
  from l1 have "rhs1 \<noteq> rhs" by auto
  moreover from l2 have "rhs2 \<noteq> rhs1" by auto
  ultimately show ?thesis
    using l1 l2 by (simp add: C C1 C2)
qed

lemma aCommand_patched_twice:
  "patchDSL RightToLeft 5 noStore aContext (aCommand
         [aSig, aCall,
          Send 106 aLoc (Send 105 aLoc (Self 104 aLoc 0) 4 [] None) 5 [] None,
          MethodDef 103 aLoc 9 3 [UnresolvedIdent 100 aLoc 0 6]
            (Send 102 aLoc (Ident 101 aLoc 7) 8 [] None) True]) 107
     = Some (Inr (aCommand
         [aSig, aCall,
          Send 113 aLoc (Send 112 aLoc (Self 111 aLoc 0) 4 [] None) 5 [] None,
          MethodDef 110 aLoc 9 3 [UnresolvedIdent 107 aLoc 0 6]
            (Send 109 aLoc (Ident 108 aLoc 7) 8 [] None) True,
          Send 106 aLoc (Send 105 aLoc (Self 104 aLoc 0) 4 [] None) 5 [] None,
          MethodDef 103 aLoc 9 3 [UnresolvedIdent 100 aLoc 0 6]
            (Send 102 aLoc (Ident 101 aLoc 7) 8 [] None) True], 114))"
  by code_simp

theorem patchDSL_twice_witness:
  "(\<exists>C1 s1 C2 s2. patchDSL RightToLeft 5 noStore aContext (aCommand [aSig, aCall]) 100 = Some (Inr (C1, s1))
       \<and> patchDSL RightToLeft 5 noStore aContext C1 s1 = Some (Inr (C2, s2))
       \<and> C1 \<noteq> aCommand [aSig, aCall] \<and> C2 \<noteq> C1
       \<and> length (statements C1) = 4 \<and> length (statements C2) = 6)
   \<and> (\<exists>C1 s1 C2 s2. patchDSL RightToLeft 5 noStore aContext (aCommand [aCall]) 100 = Some (Inr (C1, s1))
       \<and> patchDSL RightToLeft 5 noStore aContext C1 s1 = Some (Inr (C2, s2))
       \<and> C1 = aCommand [aCall] \<and> C2 = C1)"
proof
  let ?C1 = "aCommand
         [aSig, aCall,
          Send 106 aLoc (Send 105 aLoc (Self 104 aLoc 0) 4 [] None) 5 [] None,
          MethodDef 103 aLoc 9 3 [UnresolvedIdent 100 aLoc 0 6]
            (Send 102 aLoc (Ident 101 aLoc 7) 8 [] None) True]"
  let ?C2 = "aCommand
         [aSig, aCall,
          Send 113 aLoc (Send 112 aLoc (Self 111 aLoc 0) 4 [] None) 5 [] None,
          MethodDef 110 aLoc 9 3 [UnresolvedIdent 107 aLoc 0 6]
            (Send 109 aLoc (Ident 108 aLoc 7) 8 [] None) True,
          Send 106 aLoc (Send 105 aLoc (Self 104 aLoc 0) 4 [] None) 5 [] None,
          MethodDef 103 aLoc 9 3 [UnresolvedIdent 100 aLoc 0 6]
            (Send 102 aLoc (Ident 101 aLoc 7) 8 [] None) True]"
  have ne: "?C1 \<noteq> aCommand [aSig, aCall]"
    by (simp add: aCommand_def)
  from patchDSL_twice [OF aCommand_patched aCommand_patched_twice] ne
  have "?C2 \<noteq> ?C1" "length (statements ?C1) = length (statements (aCommand [aSig, aCall])) + 2"
    "length (statements ?C2) = length (statements ?C1) + 2"
    by blast+
  then have "?C2 \<noteq> ?C1" "length (statements ?C1) = 4" "length (statements ?C2) = 6"
    by (simp_all add: aCommand_def)
  with aCommand_patched aCommand_patched_twice ne
  show "\<exists>C1 s1 C2 s2. patchDSL RightToLeft 5 noStore aContext (aCommand [aSig, aCall]) 100 = Some (Inr (C1, s1))
       \<and> patchDSL RightToLeft 5 noStore aContext C1 s1 = Some (Inr (C2, s2))
       \<and> C1 \<noteq> aCommand [aSig, aCall] \<and> C2 \<noteq> C1
       \<and> length (statements C1) = 4 \<and> length (statements C2) = 6"
    by blast
next
  have 1: "patchDSL RightToLeft 5 noStore aContext (aCommand [aCall]) 100 = Some (Inr (aCommand [aCall], 100))"
    by code_simp
  from patchDSL_twice [OF 1 1] have "aCommand [aCall] = aCommand [aCall]"
    by simp
  with 1 show "\<exists>C1 s1 C2 s2. patchDSL RightToLeft 5 noStore aContext (aCommand [aCall]) 100 = Some (Inr (C1, s1))
       \<and> patchDSL RightToLeft 5 noStore aContext C1 s1 = Some (Inr (C2, s2))
       \<and> C1 = aCommand [aCall] \<and> C2 = C1"
    by blast
qed

text \<open>
  The claim as stated fails on the class of the spec's scenario: the second
  application inserts another copy of the signature and another self-targeted
  \<open>call\<close> right after the original \<open>call\<close>.
\<close>

theorem second_rewrite_inserts_again:
  "patchDSL RightToLeft 5 noStore aContext (aCommand [aSig, aCall]) 100
     = Some (Inr (aCommand
         [aSig, aCall,
          Send 106 aLoc (Send 105 aLoc (Self 104 aLoc 0) 4 [] None) 5 [] None,
          MethodDef 103 aLoc 9 3 [UnresolvedIdent 100 aLoc 0 6]
            (Send 102 aLoc (Ident 101 aLoc 7) 8 [] None) True], 107))
   \<and> patchDSL RightToLeft 5 noStore aContext (aCommand
         [aSig, aCall,
          Send 106 aLoc (Send 105 aLoc (Self 104 aLoc 0) 4 [] None) 5 [] None,
          MethodDef 103 aLoc 9 3 [UnresolvedIdent 100 aLoc 0 6]
            (Send 102 aLoc (Ident 101 aLoc 7) 8 [] None) True]) 107
     = Some (Inr (aCommand
         [aSig, aCall,
          Send 113 aLoc (Send 112 aLoc (Self 111 aLoc 0) 4 [] None) 5 [] None,
          MethodDef 110 aLoc 9 3 [UnresolvedIdent 107 aLoc 0 6]
            (Send 109 aLoc (Ident 108 aLoc 7) 8 [] None) True,
          Send 106 aLoc (Send 105 aLoc (Self 104 aLoc 0) 4 [] None) 5 [] None,
          MethodDef 103 aLoc 9 3 [UnresolvedIdent 100 aLoc 0 6]
            (Send 102 aLoc (Ident 101 aLoc 7) 8 [] None) True], 114))
   \<and> aCommand
         [aSig, aCall,
          Send 113 aLoc (Send 112 aLoc (Self 111 aLoc 0) 4 [] None) 5 [] None,
          MethodDef 110 aLoc 9 3 [UnresolvedIdent 107 aLoc 0 6]
            (Send 109 aLoc (Ident 108 aLoc 7) 8 [] None) True,
          Send 106 aLoc (Send 105 aLoc (Self 104 aLoc 0) 4 [] None) 5 [] None,
          MethodDef 103 aLoc 9 3 [UnresolvedIdent 100 aLoc 0 6]
            (Send 102 aLoc (Ident 101 aLoc 7) 8 [] None) True]
       \<noteq> aCommand
         [aSig, aCall,
          Send 106 aLoc (Send 105 aLoc (Self 104 aLoc 0) 4 [] None) 5 [] None,
          MethodDef 103 aLoc 9 3 [UnresolvedIdent 100 aLoc 0 6]
            (Send 102 aLoc (Ident 101 aLoc 7) 8 [] None) True]"
proof -
  have "aCommand
         [aSig, aCall,
          Send 113 aLoc (Send 112 aLoc (Self 111 aLoc 0) 4 [] None) 5 [] None,
          MethodDef 110 aLoc 9 3 [UnresolvedIdent 107 aLoc 0 6]
            (Send 109 aLoc (Ident 108 aLoc 7) 8 [] None) True,
          Send 106 aLoc (Send 105 aLoc (Self 104 aLoc 0) 4 [] None) 5 [] None,
          MethodDef 103 aLoc 9 3 [UnresolvedIdent 100 aLoc 0 6]
            (Send 102 aLoc (Ident 101 aLoc 7) 8 [] None) True]
       \<noteq> aCommand
         [aSig, aCall,
          Send 106 aLoc (Send 105 aLoc (Self 104 aLoc 0) 4 [] None) 5 [] None,
          MethodDef 103 aLoc 9 3 [UnresolvedIdent 100 aLoc 0 6]
            (Send 102 aLoc (Ident 101 aLoc 7) 8 [] None) True]"
    by (simp add: aCommand_def)
  with aCommand_patched aCommand_patched_twice show ?thesis
    by blast
qed












end
